theory Spec2Isabelle
  imports Main "HOL-Library.Multiset"
begin

section \<open>Events, sessions and workflow groups\<close>

text \<open>
  The dashboard receives sessions, each with an id and an array of event objects. Of an
  event the correlator reads \<^verbatim>\<open>event_id\<close>, \<^verbatim>\<open>timestamp\<close>, \<^verbatim>\<open>category\<close> and \<^verbatim>\<open>type\<close>.
  String fields that are absent are the empty string (both are falsy for \<^verbatim>\<open>||\<close>).

  A time value is what \<^verbatim>\<open>new Date(x).getTime()\<close> yields: a number of milliseconds, or NaN
  when \<open>x\<close> does not parse or is out of range. The field \<open>timestamp\<close> holds the time value
  of the event's timestamp, and \<open>None\<close> when the timestamp is absent or empty.

  \<open>sessionId\<close> is the property \<^verbatim>\<open>_sessionId\<close> that the correlator adds to its copies.
  \<open>oid\<close> is the identity of the object: \<^verbatim>\<open>indexOf\<close> compares objects by identity, and
  every copy made by the correlator is a new object, numbered by its allocation.
\<close>

datatype timeValue = Ms int | NaN

record event =
  oid :: nat
  event_id :: string
  timestamp :: "timeValue option"
  category :: string
  etype :: string
  sessionId :: "string option"

record session =
  session_id :: string
  events :: "event list"

record workflowGroup =
  prompt :: "event option"
  actions :: "event list"
  group_id :: string

text \<open>\<^verbatim>\<open>new Date(e.timestamp || 0).getTime()\<close>\<close>

definition getTime :: "event \<Rightarrow> timeValue" where
  "getTime e = (case timestamp e of None \<Rightarrow> Ms 0 | Some t \<Rightarrow> t)"

text \<open>
  \<^verbatim>\<open>a < b\<close> and \<^verbatim>\<open>a - b\<close> on time values: a comparison with NaN is false, a difference
  with NaN is NaN. \<^verbatim>\<open>a > b\<close> is \<^verbatim>\<open>b < a\<close>.
\<close>

fun lessTime :: "timeValue \<Rightarrow> timeValue \<Rightarrow> bool" where
  "lessTime (Ms a) (Ms b) = (a < b)"
| "lessTime a b = False"

fun minusTime :: "timeValue \<Rightarrow> timeValue \<Rightarrow> timeValue" where
  "minusTime (Ms a) (Ms b) = Ms (a - b)"
| "minusTime a b = NaN"

text \<open>\<^verbatim>\<open>(e.category || e.type) === 'prompt'\<close>\<close>

definition isPrompt :: "event \<Rightarrow> bool" where
  "isPrompt e = ((if category e \<noteq> [] then category e else etype e) = ''prompt'')"

text \<open>Template literals print an index in decimal.\<close>

definition digit :: "nat \<Rightarrow> char" where
  "digit d = ''0123456789'' ! d"

function show_nat :: "nat \<Rightarrow> string" where
  "show_nat n = (if n < 10 then [digit n] else show_nat (n div 10) @ [digit (n mod 10)])"
  by pat_completeness auto
termination
  by (relation "measure id") auto

text \<open>
  The gathering loops: every event of every session is copied with its session's id
  (\<^verbatim>\<open>allEvents.push({ ...event, _sessionId: session.id })\<close>).
\<close>

definition pushEvents :: "event list \<Rightarrow> session \<Rightarrow> event list" where
  "pushEvents acc s =
     foldl (\<lambda>acc e. acc @ [e\<lparr>sessionId := Some (session_id s), oid := length acc\<rparr>]) acc (events s)"

definition gather :: "session list \<Rightarrow> event list" where
  "gather ss = foldl pushEvents [] ss"

text \<open>
  \<^verbatim>\<open>sort((a, b) => timeA - timeB)\<close>. The sort takes the comparator's result as a number and
  reads NaN as 0.
\<close>

definition compareTimes :: "event \<Rightarrow> event \<Rightarrow> int" where
  "compareTimes a b = (case minusTime (getTime a) (getTime b) of Ms d \<Rightarrow> d | NaN \<Rightarrow> 0)"

definition parses :: "event \<Rightarrow> bool" where
  "parses e = (getTime e \<noteq> NaN)"

definition msOf :: "event \<Rightarrow> int" where
  "msOf e = (case getTime e of Ms t \<Rightarrow> t | NaN \<Rightarrow> 0)"

text \<open>
  When a time value is NaN the comparator is not consistent, and ECMAScript leaves the order
  of the result to the engine. The model follows V8 (Chrome, Node) then. For an array shorter
  than 64 elements V8 takes the longest run at the start of the array (non-descending, or
  strictly descending and then reversed) and inserts each later element into the sorted part
  at the place a binary search finds. Longer arrays, which V8 cuts into several runs and
  merges, are modelled by the same steps; every example below is shorter.
\<close>

fun extendRun :: "bool \<Rightarrow> event \<Rightarrow> event list \<Rightarrow> nat" where
  "extendRun isDescending previousElement [] = 0"
| "extendRun isDescending previousElement (currentElement # rest) =
     (let order = compareTimes currentElement previousElement
      in if (if isDescending then order \<ge> 0 else order < 0) then 0
         else 1 + extendRun isDescending currentElement rest)"

definition countRun :: "event list \<Rightarrow> nat" where
  "countRun work =
     (case work of
        elementHigh # elementLow # rest \<Rightarrow>
          2 + extendRun (compareTimes elementLow elementHigh < 0) elementLow rest
      | _ \<Rightarrow> length work)"

definition makeRun :: "event list \<Rightarrow> event list" where
  "makeRun work =
     (case work of
        elementHigh # elementLow # rest \<Rightarrow>
          if compareTimes elementLow elementHigh < 0
          then rev (take (countRun work) work) @ drop (countRun work) work
          else work
      | _ \<Rightarrow> work)"

function searchPosition :: "event \<Rightarrow> event list \<Rightarrow> nat \<Rightarrow> nat \<Rightarrow> nat" where
  "searchPosition pivot work left right =
     (if left < right then
        let mid = left + (right - left) div 2
        in if compareTimes pivot (work ! mid) < 0
           then searchPosition pivot work left mid
           else searchPosition pivot work (mid + 1) right
      else left)"
  by pat_completeness auto
termination
  by (relation "measure (\<lambda>(pivot, work, left, right). right - left)") auto

definition insertPivot :: "event list \<Rightarrow> nat \<Rightarrow> event list" where
  "insertPivot work start =
     (let pivot = work ! start;
          left = searchPosition pivot work 0 start
      in take left work @ [pivot] @ take (start - left) (drop left work) @ drop (start + 1) work)"

fun binaryInsertionSort :: "event list \<Rightarrow> nat \<Rightarrow> nat \<Rightarrow> event list" where
  "binaryInsertionSort work start 0 = work"
| "binaryInsertionSort work start (Suc remaining) =
     binaryInsertionSort (insertPivot work start) (start + 1) remaining"

definition engineSort :: "event list \<Rightarrow> event list" where
  "engineSort es =
     (if length es < 2 then es
      else binaryInsertionSort (makeRun es) (countRun es) (length es - countRun es))"

text \<open>
  When every time value is a number the comparator is a consistent order on the time values,
  and \<^verbatim>\<open>Array.prototype.sort\<close> is the stable sort by time.
\<close>

definition sortByTime :: "event list \<Rightarrow> event list" where
  "sortByTime es = (if list_all parses es then sort_key msOf es else engineSort es)"

definition allEvents :: "session list \<Rightarrow> event list" where
  "allEvents ss = sortByTime (gather ss)"

definition prompts :: "session list \<Rightarrow> event list" where
  "prompts ss = filter isPrompt (allEvents ss)"

definition nonPrompts :: "session list \<Rightarrow> event list" where
  "nonPrompts ss = filter (\<lambda>e. \<not> isPrompt e) (allEvents ss)"

text \<open>\<^verbatim>\<open>actionTime < nextPromptTime\<close>, where \<open>None\<close> is \<^verbatim>\<open>Infinity\<close>.\<close>

definition lessThanTime :: "timeValue \<Rightarrow> timeValue option \<Rightarrow> bool" where
  "lessThanTime t u = (case u of None \<Rightarrow> t \<noteq> NaN | Some v \<Rightarrow> lessTime t v)"

definition relatedActions :: "timeValue \<Rightarrow> timeValue option \<Rightarrow> event list \<Rightarrow> event list" where
  "relatedActions promptTime nextPromptTime acts =
     filter (\<lambda>a. let actionTime = getTime a
                 in lessTime promptTime actionTime \<and> lessThanTime actionTime nextPromptTime) acts"

definition groupId :: "event \<Rightarrow> nat \<Rightarrow> string" where
  "groupId p i = (if event_id p \<noteq> [] then event_id p else ''group-'' @ show_nat i)"

text \<open>The loop of the \<^verbatim>\<open>'no_session'\<close> view, from index \<open>i\<close> with the groups pushed so far.\<close>

function noSessionLoop :: "event list \<Rightarrow> event list \<Rightarrow> nat \<Rightarrow> workflowGroup list \<Rightarrow> workflowGroup list" where
  "noSessionLoop ps acts i groups =
     (if i < length ps then
        let p = ps ! i;
            promptTime = getTime p;
            nextPromptTime = (if i < length ps - 1 then Some (getTime (ps ! (i + 1))) else None)
        in noSessionLoop ps acts (i + 1)
             (groups @ [\<lparr>prompt = Some p,
                          actions = relatedActions promptTime nextPromptTime acts,
                          group_id = groupId p i\<rparr>])
      else groups)"
  by pat_completeness auto
termination
  by (relation "measure (\<lambda>(ps, acts, i, groups). length ps - i)") auto

text \<open>\<^verbatim>\<open>relevantPrompts.indexOf(prompt)\<close>: the first position holding the same object, or -1.\<close>

fun indexOfFrom :: "event list \<Rightarrow> event \<Rightarrow> int \<Rightarrow> int" where
  "indexOfFrom [] p k = -1"
| "indexOfFrom (q # qs) p k = (if oid q = oid p then k else indexOfFrom qs p (k + 1))"

definition indexOf :: "event list \<Rightarrow> event \<Rightarrow> int" where
  "indexOf qs p = indexOfFrom qs p 0"

text \<open>
  The loop of a specific session's view, over the relevant prompts still to visit
  (the counter \<^verbatim>\<open>actionIndex\<close> is written and never read).
\<close>

fun sessionLoop :: "event list \<Rightarrow> event list \<Rightarrow> event list \<Rightarrow> workflowGroup list \<Rightarrow> workflowGroup list" where
  "sessionLoop rel sessionEvents [] groups = groups"
| "sessionLoop rel sessionEvents (p # rest) groups =
     (let promptTime = getTime p;
          nextPromptTime =
            (if indexOf rel p < int (length rel) - 1
             then Some (getTime (rel ! nat (indexOf rel p + 1)))
             else None);
          related = relatedActions promptTime nextPromptTime sessionEvents
      in if length related > 0 \<or> length rel = 1
         then sessionLoop rel sessionEvents rest
                (groups @ [\<lparr>prompt = Some p, actions = related,
                             group_id = groupId p (length groups)\<rparr>])
         else sessionLoop rel sessionEvents rest groups)"

definition earliestActionTime :: "event list \<Rightarrow> timeValue" where
  "earliestActionTime sessionEvents =
     (if length sessionEvents > 0 then getTime (sessionEvents ! 0) else Ms 0)"

definition relevantPrompts :: "event list \<Rightarrow> timeValue \<Rightarrow> event list" where
  "relevantPrompts ps earliest =
     filter (\<lambda>p. let promptTime = getTime p
                 in lessTime promptTime earliest \<and>
                    lessTime (minusTime earliest promptTime) (Ms (5 * 60 * 1000))) ps"

definition sessionGroups :: "event list \<Rightarrow> event list \<Rightarrow> workflowGroup list" where
  "sessionGroups ps sessionEvents =
     (let rel = relevantPrompts ps (earliestActionTime sessionEvents);
          groups = sessionLoop rel sessionEvents rel []
      in if length groups = 0 \<and> length sessionEvents > 0
         then groups @ [\<lparr>prompt = None, actions = sessionEvents, group_id = ''session-actions''\<rparr>]
         else groups)"

text \<open>
  \<^verbatim>\<open>workflowGroups\<close> (first App variant). \<open>selectedSession\<close> is \<open>None\<close> for \<^verbatim>\<open>null\<close>;
  the empty string is falsy as well.
\<close>

definition workflowGroups :: "string option \<Rightarrow> session list \<Rightarrow> workflowGroup list" where
  "workflowGroups selectedSession ss =
     (case selectedSession of
        None \<Rightarrow> []
      | Some sel \<Rightarrow>
          if sel = [] then []
          else if sel = ''no_session'' then noSessionLoop (prompts ss) (nonPrompts ss) 0 []
          else (case find (\<lambda>s. session_id s = sel) ss of
                  None \<Rightarrow> []
                | Some s \<Rightarrow>
                    if length (events s) = 0 then []
                    else sessionGroups (prompts ss) (sortByTime (events s))))"

text \<open>Every timestamp of every event of the sessions parses.\<close>

definition allParse :: "session list \<Rightarrow> bool" where
  "allParse ss = list_all (\<lambda>s. list_all parses (events s)) ss"

text \<open>The group pushed for the prompt at index \<open>i\<close>, and the window that selects its actions.\<close>

definition groupAt :: "event list \<Rightarrow> event list \<Rightarrow> nat \<Rightarrow> workflowGroup" where
  "groupAt ps acts i =
     \<lparr>prompt = Some (ps ! i),
      actions = relatedActions (getTime (ps ! i))
                  (if i < length ps - 1 then Some (getTime (ps ! (i + 1))) else None) acts,
      group_id = groupId (ps ! i) i\<rparr>"

definition inWindow :: "event list \<Rightarrow> nat \<Rightarrow> int \<Rightarrow> bool" where
  "inWindow ps i t =
     (msOf (ps ! i) < t \<and> (i + 1 < length ps \<longrightarrow> t < msOf (ps ! (i + 1))))"

definition groupsOf :: "event \<Rightarrow> workflowGroup list \<Rightarrow> workflowGroup list" where
  "groupsOf a gs = filter (\<lambda>g. a \<in> set (actions g)) gs"

text \<open>
  \<^verbatim>\<open>workflowGroups\<close> of the second App variant, which has the same gathering, sorting and
  loops.
\<close>

definition workflowGroups2 :: "string option \<Rightarrow> session list \<Rightarrow> workflowGroup list" where
  "workflowGroups2 selectedSession ss =
     (case selectedSession of
        None \<Rightarrow> []
      | Some sel \<Rightarrow>
          if sel = [] then []
          else
            let all = sortByTime (gather ss);
                ps = filter isPrompt all;
                acts = filter (\<lambda>e. \<not> isPrompt e) all
            in if sel = ''no_session'' then noSessionLoop ps acts 0 []
               else (case find (\<lambda>s. session_id s = sel) ss of
                       None \<Rightarrow> []
                     | Some s \<Rightarrow>
                         if length (events s) = 0 then []
                         else
                           let sessionEvents = sortByTime (events s);
                               earliest = earliestActionTime sessionEvents;
                               rel = relevantPrompts ps earliest;
                               groups = sessionLoop rel sessionEvents rel []
                           in if length groups = 0 \<and> length sessionEvents > 0
                              then groups @ [\<lparr>prompt = None, actions = sessionEvents,
                                              group_id = ''session-actions''\<rparr>]
                              else groups))"

text \<open>
  The time after which the relevant prompt \<open>p\<close> stops owning events, and the test that
  decides whether its group is pushed.
\<close>

definition nextRelevantTime :: "event list \<Rightarrow> event \<Rightarrow> timeValue option" where
  "nextRelevantTime rel p =
     (if indexOf rel p < int (length rel) - 1
      then Some (getTime (rel ! nat (indexOf rel p + 1))) else None)"

definition kept :: "event list \<Rightarrow> event list \<Rightarrow> event \<Rightarrow> bool" where
  "kept rel sessionEvents p =
     (relatedActions (getTime p) (nextRelevantTime rel p) sessionEvents \<noteq> [] \<or> length rel = 1)"

section \<open>Metrics of the first App variant\<close>

text \<open>
  \<^verbatim>\<open>MetricsDashboard\<close> of the first App variant computes the snapshot in the browser from the
  log entries. Of a log entry it reads the fields below; the fields under \<^verbatim>\<open>data\<close> carry the
  prefix \<open>data_\<close>. An absent string is the empty string and an absent number is 0 (both are
  falsy), and an absent \<^verbatim>\<open>data\<close> object reads as all its fields absent.
\<close>

record log =
  log_category :: string
  log_type :: string
  log_timestamp :: string
  trajectory_id :: string
  file_path :: string
  command_line :: string
  data_file_path :: string
  data_command_line :: string
  data_mcp_tool_name :: string
  data_mcp_full_tool :: string
  data_total_lines_added :: int
  data_total_lines_removed :: int

text \<open>
  Dates. Two facts of the host are parameters of the model: \<open>parseDate\<close>, the time value in
  milliseconds of \<^verbatim>\<open>new Date(s)\<close> (\<open>None\<close> for an invalid date), and \<open>tz\<close>, the offset in
  milliseconds of local time from UTC at a time value. \<^verbatim>\<open>getHours\<close> and \<^verbatim>\<open>getDay\<close> read local
  time; 1 January 1970 was a Thursday, and \<^verbatim>\<open>getDay\<close> numbers Sunday 0.
\<close>

definition getHours :: "(int \<Rightarrow> int) \<Rightarrow> int \<Rightarrow> nat" where
  "getHours tz t = nat (((t + tz t) div 3600000) mod 24)"

definition getDay :: "(int \<Rightarrow> int) \<Rightarrow> int \<Rightarrow> nat" where
  "getDay tz t = nat (((t + tz t) div 86400000 + 4) mod 7)"

text \<open>
  \<^verbatim>\<open>toISOString().split('T')[0]\<close>: the UTC calendar date of a time value, as year, month and
  day of the proleptic Gregorian calendar, printed \<^verbatim>\<open>YYYY-MM-DD\<close> (years outside 0..9999 are
  printed with a sign and six digits).
\<close>

definition civilFromDays :: "int \<Rightarrow> int \<times> int \<times> int" where
  "civilFromDays days =
     (let z = days + 719468;
          era = z div 146097;
          doe = z mod 146097;
          yoe = (doe - doe div 1460 + doe div 36524 - doe div 146096) div 365;
          doy = doe - (365 * yoe + yoe div 4 - yoe div 100);
          mp = (5 * doy + 2) div 153;
          d = doy - (153 * mp + 2) div 5 + 1;
          m = (if mp < 10 then mp + 3 else mp - 9);
          y = yoe + era * 400 + (if m \<le> 2 then 1 else 0)
      in (y, m, d))"

definition padStart :: "nat \<Rightarrow> string \<Rightarrow> string" where
  "padStart n s = replicate (n - length s) (CHR ''0'') @ s"

definition isoYear :: "int \<Rightarrow> string" where
  "isoYear y =
     (if 0 \<le> y \<and> y \<le> 9999 then padStart 4 (show_nat (nat y))
      else (if y < 0 then ''-'' else ''+'') @ padStart 6 (show_nat (nat \<bar>y\<bar>)))"

definition toISODate :: "int \<Rightarrow> string" where
  "toISODate t =
     (case civilFromDays (t div 86400000) of
        (y, m, d) \<Rightarrow> isoYear y @ ''-'' @ padStart 2 (show_nat (nat m)) @ ''-'' @ padStart 2 (show_nat (nat d)))"

definition startsWith :: "string \<Rightarrow> string \<Rightarrow> bool" where
  "startsWith s p = (take (length p) s = p)"

definition dayNamesList :: "string list" where
  "dayNamesList = [''Sun'', ''Mon'', ''Tue'', ''Wed'', ''Thu'', ''Fri'', ''Sat'']"

text \<open>
  Objects used as counters. An object is the list of its own properties in the order of their
  creation. \<^verbatim>\<open>obj[k] = (obj[k] || 0) + 1\<close> adds one to an own property or creates it with
  value 1. When \<open>k\<close> names a function that every object inherits, the code adds 1 to that
  function and stores a string, not a count; when \<open>k\<close> is \<^verbatim>\<open>__proto__\<close> the assignment of a
  string is ignored and nothing is counted.
\<close>

type_synonym counts = "(string \<times> nat) list"

definition inheritedFunctions :: "string list" where
  "inheritedFunctions =
     [''constructor'', ''hasOwnProperty'', ''isPrototypeOf'', ''propertyIsEnumerable'',
      ''toLocaleString'', ''toString'', ''valueOf'', ''__defineGetter__'', ''__defineSetter__'',
      ''__lookupGetter__'', ''__lookupSetter__'']"

fun increment :: "counts \<Rightarrow> string \<Rightarrow> counts" where
  "increment [] k = [(k, 1)]"
| "increment ((k', n) # rest) k =
     (if k' = k then (k', n + 1) # rest else (k', n) # increment rest k)"

text \<open>The counter after a run over the keys; \<open>None\<close> when some value is not a count.\<close>

definition countKeys :: "string list \<Rightarrow> counts option" where
  "countKeys ks =
     (if list_ex (\<lambda>k. k \<in> set inheritedFunctions) ks then None
      else Some (foldl increment [] (filter (\<lambda>k. k \<noteq> ''__proto__'') ks)))"

text \<open>
  \<^verbatim>\<open>Object.entries\<close> lists the own properties whose key is an array index (a canonical decimal
  numeral not above \<open>2\<^sup>3\<^sup>2 - 2\<close>) first, in ascending numeric order, and then the other
  properties in the order of their creation.
\<close>

fun intOfDigits :: "int \<Rightarrow> string \<Rightarrow> int" where
  "intOfDigits acc [] = acc"
| "intOfDigits acc (c # cs) = intOfDigits (10 * acc + (of_char c - 48)) cs"

definition isArrayIndex :: "string \<Rightarrow> bool" where
  "isArrayIndex k =
     (k \<noteq> [] \<and> list_all (\<lambda>c. c \<in> set ''0123456789'') k \<and>
      (k = ''0'' \<or> hd k \<noteq> CHR ''0'') \<and> intOfDigits 0 k \<le> 4294967294)"

definition entries :: "counts \<Rightarrow> counts" where
  "entries obj =
     sort_key (\<lambda>(k, n). intOfDigits 0 k) (filter (\<lambda>(k, n). isArrayIndex k) obj) @
     filter (\<lambda>(k, n). \<not> isArrayIndex k) obj"

text \<open>\<^verbatim>\<open>Object.entries(obj).sort((a, b) => b[1] - a[1]).slice(0, n)\<close>; the sort is stable.\<close>

definition topEntries :: "nat \<Rightarrow> counts \<Rightarrow> counts" where
  "topEntries n obj = take n (sort_key (\<lambda>(k, c). - int c) (entries obj))"

text \<open>The keys counted by the four counters.\<close>

definition categoryOf :: "log \<Rightarrow> string" where
  "categoryOf l =
     (if log_category l \<noteq> [] then log_category l
      else if log_type l \<noteq> [] then log_type l else ''unknown'')"

definition hasCategory :: "string \<Rightarrow> log \<Rightarrow> bool" where
  "hasCategory c l = (log_category l = c \<or> log_type l = c)"

definition splitPop :: "char \<Rightarrow> string \<Rightarrow> string" where
  "splitPop sep s = rev (takeWhile (\<lambda>c. c \<noteq> sep) (rev s))"

definition splitFirst :: "char \<Rightarrow> string \<Rightarrow> string" where
  "splitFirst sep s = takeWhile (\<lambda>c. c \<noteq> sep) s"

definition fileNameOf :: "log \<Rightarrow> string" where
  "fileNameOf l =
     (let filePath = (if data_file_path l \<noteq> [] then data_file_path l
                      else if file_path l \<noteq> [] then file_path l else ''unknown'')
      in splitPop (CHR ''/'') filePath)"

definition cmdNameOf :: "log \<Rightarrow> string" where
  "cmdNameOf l =
     (let cmd = (if data_command_line l \<noteq> [] then data_command_line l
                 else if command_line l \<noteq> [] then command_line l else ''unknown'')
      in splitFirst (CHR '' '') cmd)"

definition toolOf :: "log \<Rightarrow> string" where
  "toolOf l =
     (if data_mcp_tool_name l \<noteq> [] then data_mcp_tool_name l
      else if data_mcp_full_tool l \<noteq> [] then data_mcp_full_tool l else ''unknown'')"

definition fileNames :: "log list \<Rightarrow> string list" where
  "fileNames logs = map fileNameOf (filter (hasCategory ''file_write'') logs)"

definition fileChanges :: "log list \<Rightarrow> counts option" where
  "fileChanges logs = countKeys (fileNames logs)"

definition topFilesOf :: "log list \<Rightarrow> counts option" where
  "topFilesOf logs = map_option (topEntries 8) (fileChanges logs)"

text \<open>
  The histograms: \<^verbatim>\<open>Array(n).fill(0)\<close>, and one increment for every entry with a timestamp.
  An invalid date gives the index NaN, which is no bucket.
\<close>

definition bumpAt :: "nat list \<Rightarrow> nat \<Rightarrow> nat list" where
  "bumpAt h i = h[i := h ! i + 1]"

definition histogram :: "nat \<Rightarrow> ((int \<Rightarrow> int) \<Rightarrow> int \<Rightarrow> nat) \<Rightarrow> (string \<Rightarrow> int option) \<Rightarrow> (int \<Rightarrow> int) \<Rightarrow> log list \<Rightarrow> nat list" where
  "histogram n component parseDate tz logs =
     foldl (\<lambda>h l. if log_timestamp l \<noteq> []
                   then (case parseDate (log_timestamp l) of
                           None \<Rightarrow> h
                         | Some t \<Rightarrow> bumpAt h (component tz t))
                   else h)
       (replicate n 0) logs"

definition maxWith1 :: "nat list \<Rightarrow> nat" where
  "maxWith1 xs = foldr max xs 1"

text \<open>The sessions: the distinct non-empty trajectory ids, and 1 when there is none.\<close>

definition uniqueSessionIds :: "log list \<Rightarrow> string list" where
  "uniqueSessionIds logs = remdups (filter (\<lambda>i. i \<noteq> []) (map trajectory_id logs))"

definition filteredSessionCountOf :: "log list \<Rightarrow> nat" where
  "filteredSessionCountOf logs =
     (if length (uniqueSessionIds logs) \<noteq> 0 then length (uniqueSessionIds logs) else 1)"

text \<open>\<^verbatim>\<open>Math.round(a / b)\<close> for counts \<open>a\<close> and \<open>b > 0\<close>: halves round up.\<close>

definition roundDiv :: "nat \<Rightarrow> nat \<Rightarrow> nat" where
  "roundDiv a b = (2 * a + b) div (2 * b)"

definition avgEventsPerSessionOf :: "log list \<Rightarrow> nat" where
  "avgEventsPerSessionOf logs =
     (if filteredSessionCountOf logs > 0
      then roundDiv (length logs) (filteredSessionCountOf logs) else 0)"

text \<open>The last seven days, counted back from the moment \<open>now\<close> of the evaluation.\<close>

record recentDay =
  label :: string
  date :: string
  count_day :: nat

definition recentDayOf :: "(int \<Rightarrow> int) \<Rightarrow> int \<Rightarrow> log list \<Rightarrow> nat \<Rightarrow> recentDay" where
  "recentDayOf tz now logs i =
     (let t = now - int i * 24 * 60 * 60 * 1000;
          dateStr = toISODate t
      in \<lparr>label = dayNamesList ! getDay tz t,
          date = dateStr,
          count_day = length (filter (\<lambda>l. startsWith (log_timestamp l) dateStr) logs)\<rparr>)"

definition recentDaysOf :: "(int \<Rightarrow> int) \<Rightarrow> int \<Rightarrow> log list \<Rightarrow> recentDay list" where
  "recentDaysOf tz now logs = map (recentDayOf tz now logs) [6, 5, 4, 3, 2, 1, 0]"

text \<open>The snapshot; \<open>None\<close> when a counter holds a value that is not a count.\<close>

record metrics =
  totalEvents :: nat
  categoryBreakdown :: counts
  hourlyActivity :: "nat list"
  maxHourly :: nat
  dailyActivity :: "nat list"
  dayNames :: "string list"
  maxDaily :: nat
  topFiles :: counts
  topCommands :: counts
  topMcpTools :: counts
  avgEventsPerSession :: nat
  totalLinesAdded :: int
  totalLinesRemoved :: int
  recentDays :: "recentDay list"
  maxRecentDaily :: nat
  uniqueFilesCount :: nat
  filteredSessionCount :: nat

definition computeMetrics :: "(string \<Rightarrow> int option) \<Rightarrow> (int \<Rightarrow> int) \<Rightarrow> int \<Rightarrow> log list \<Rightarrow> metrics option" where
  "computeMetrics parseDate tz now logs =
     (case countKeys (map categoryOf logs) of None \<Rightarrow> None | Some cats \<Rightarrow>
      case fileChanges logs of None \<Rightarrow> None | Some files \<Rightarrow>
      case countKeys (map cmdNameOf (filter (hasCategory ''command'') logs)) of None \<Rightarrow> None | Some cmds \<Rightarrow>
      case countKeys (map toolOf (filter (hasCategory ''mcp'') logs)) of None \<Rightarrow> None | Some tools \<Rightarrow>
        Some \<lparr>totalEvents = length logs,
              categoryBreakdown = cats,
              hourlyActivity = histogram 24 getHours parseDate tz logs,
              maxHourly = maxWith1 (histogram 24 getHours parseDate tz logs),
              dailyActivity = histogram 7 getDay parseDate tz logs,
              dayNames = dayNamesList,
              maxDaily = maxWith1 (histogram 7 getDay parseDate tz logs),
              topFiles = topEntries 8 files,
              topCommands = topEntries 6 cmds,
              topMcpTools = topEntries 6 tools,
              avgEventsPerSession = avgEventsPerSessionOf logs,
              totalLinesAdded =
                sum_list (map data_total_lines_added (filter (hasCategory ''file_write'') logs)),
              totalLinesRemoved =
                sum_list (map data_total_lines_removed (filter (hasCategory ''file_write'') logs)),
              recentDays = recentDaysOf tz now logs,
              maxRecentDaily = maxWith1 (map count_day (recentDaysOf tz now logs)),
              uniqueFilesCount = length files,
              filteredSessionCount = filteredSessionCountOf logs\<rparr>)"

text \<open>
  The entries that a histogram counts in bucket \<open>j\<close>: those with a timestamp that parses to
  a time whose component (hour, or day of the week) is \<open>j\<close>.
\<close>

definition counted :: "((int \<Rightarrow> int) \<Rightarrow> int \<Rightarrow> nat) \<Rightarrow> (string \<Rightarrow> int option) \<Rightarrow> (int \<Rightarrow> int) \<Rightarrow> nat \<Rightarrow> log \<Rightarrow> bool" where
  "counted component parseDate tz j l =
     (log_timestamp l \<noteq> [] \<and> map_option (component tz) (parseDate (log_timestamp l)) = Some j)"

section \<open>Metrics of the second App variant\<close>

text \<open>
  \<^verbatim>\<open>MetricsDashboard\<close> of the second App variant takes the snapshot from the server
  (\<^verbatim>\<open>aggregatedMetrics\<close>) and converts it. The conversion of the server's day-of-week
  histogram is modelled.
\<close>

text \<open>
  \<^verbatim>\<open>[serverDaily[6], ...serverDaily.slice(0, 6)]\<close>, where \<open>daily_activity\<close> is \<open>None\<close> when the
  server sent none. An element is \<open>None\<close> when it is \<^verbatim>\<open>undefined\<close> (the server's array was
  too short).
\<close>

definition rotateDaily :: "nat list option \<Rightarrow> nat option list" where
  "rotateDaily daily_activity =
     (let serverDaily = (case daily_activity of None \<Rightarrow> replicate 7 0 | Some d \<Rightarrow> d)
      in (if 6 < length serverDaily then Some (serverDaily ! 6) else None) #
         map Some (take 6 serverDaily))"

section \<open>Counting in first-seen order\<close>

text \<open>
  What grouping the keys and counting them in first-seen order means: the distinct keys in
  the order of their first occurrence, each with the number of its occurrences.
\<close>

definition firstSeen :: "string list \<Rightarrow> string list" where
  "firstSeen ks = rev (remdups (rev ks))"

definition firstSeenCounts :: "string list \<Rightarrow> counts" where
  "firstSeenCounts ks = map (\<lambda>k. (k, count_list ks k)) (firstSeen ks)"

definition isInherited :: "string \<Rightarrow> bool" where
  "isInherited k = (k \<in> set inheritedFunctions \<or> k = ''__proto__'')"

section \<open>Example corpora\<close>

text \<open>An event as received from the sessions API, and the copy the correlator makes of it.\<close>

definition received :: "string \<Rightarrow> int \<Rightarrow> string \<Rightarrow> event" where
  "received i t c =
     \<lparr>oid = 0, event_id = i, timestamp = Some (Ms t), category = c, etype = [],
      sessionId = None\<rparr>"

text \<open>An event whose timestamp does not parse.\<close>

definition garbled :: "string \<Rightarrow> string \<Rightarrow> event" where
  "garbled i c =
     \<lparr>oid = 0, event_id = i, timestamp = Some NaN, category = c, etype = [], sessionId = None\<rparr>"

definition copied :: "nat \<Rightarrow> string \<Rightarrow> event \<Rightarrow> event" where
  "copied k s e = e\<lparr>sessionId := Some s, oid := k\<rparr>"

text \<open>
  Two prompts at 10:00 and 10:05 in the \<open>no_session\<close> bucket, a file write at 10:01 and a
  command at 10:06 in session \<open>A\<close> (times in milliseconds after midnight).
\<close>

definition corpus1 :: "session list" where
  "corpus1 =
     [\<lparr>session_id = ''no_session'',
       events = [received ''p1'' 36000000 ''prompt'', received ''p2'' 36300000 ''prompt'']\<rparr>,
      \<lparr>session_id = ''A'',
       events = [received ''w1'' 36060000 ''file_write'', received ''c1'' 36360000 ''command'']\<rparr>]"

text \<open>
  The same corpus with a session \<open>B\<close>: a file read at 09:59, before the first prompt, and a
  command at 10:05:00.000, the very millisecond of the second prompt.
\<close>

definition corpus2 :: "session list" where
  "corpus2 = corpus1 @
     [\<lparr>session_id = ''B'',
       events = [received ''r0'' 35940000 ''file_read'', received ''c2'' 36300000 ''command'']\<rparr>]"

text \<open>
  A session \<open>S\<close> whose events start at 10:10, with prompts at 09:50 (20 minutes earlier),
  10:05 (exactly 5 minutes earlier) and 10:06 (4 minutes earlier) in the \<open>no_session\<close> bucket.
\<close>

definition sessionS :: session where
  "sessionS =
     \<lparr>session_id = ''S'',
      events = [received ''a2'' 36720000 ''command'', received ''a1'' 36600000 ''file_write'']\<rparr>"

definition corpus3 :: "session list" where
  "corpus3 =
     [\<lparr>session_id = ''no_session'',
       events = [received ''q1'' 35400000 ''prompt'', received ''q2'' 36300000 ''prompt'',
                 received ''q3'' 36360000 ''prompt'']\<rparr>,
      sessionS]"

text \<open>The same without the prompt of 10:06, and the same with one more prompt at 10:08.\<close>

definition corpus4 :: "session list" where
  "corpus4 =
     [\<lparr>session_id = ''no_session'',
       events = [received ''q1'' 35400000 ''prompt'', received ''q2'' 36300000 ''prompt'']\<rparr>,
      sessionS]"

definition corpus5 :: "session list" where
  "corpus5 =
     [\<lparr>session_id = ''no_session'',
       events = [received ''q3'' 36360000 ''prompt'', received ''q4'' 36480000 ''prompt'']\<rparr>,
      sessionS]"



text \<open>
  Prompts at 10:00 and 10:10, a prompt whose timestamp does not parse, and prompts at 09:55
  and 10:05, in this order, with a command at 10:02 in session \<open>A\<close>.
\<close>

definition corpus7 :: "session list" where
  "corpus7 =
     [\<lparr>session_id = ''no_session'',
       events = [received ''p'' 36000000 ''prompt'', received ''q'' 36600000 ''prompt'',
                 garbled ''x'' ''prompt'', received ''r'' 35700000 ''prompt'',
                 received ''s'' 36300000 ''prompt''] \<rparr>,
      \<lparr>session_id = ''A'', events = [received ''a'' 36120000 ''command'']\<rparr>]"

text \<open>Log entries for the examples: a file write with a timestamp and a path.\<close>

definition fileWrite :: "string \<Rightarrow> string \<Rightarrow> log" where
  "fileWrite ts path =
     \<lparr>log_category = ''file_write'', log_type = [], log_timestamp = ts, trajectory_id = [],
      file_path = [], command_line = [], data_file_path = path, data_command_line = [],
      data_mcp_tool_name = [], data_mcp_full_tool = [],
      data_total_lines_added = 0, data_total_lines_removed = 0\<rparr>"

text \<open>
  A host in UTC that knows one timestamp: 10:00 on Monday 1 January 2024, which is
  1704103200000 milliseconds after the epoch.
\<close>

definition parseExample :: "string \<Rightarrow> int option" where
  "parseExample s = (if s = ''2024-01-01T10:00:00Z'' then Some 1704103200000 else None)"

definition utc :: "int \<Rightarrow> int" where
  "utc t = 0"

declare noSessionLoop.simps [simp del] show_nat.simps [simp del] searchPosition.simps [simp del]

section \<open>The sort is a permutation\<close>

lemma searchPosition_bounds:
  "left \<le> right \<Longrightarrow>
   left \<le> searchPosition pivot work left right \<and> searchPosition pivot work left right \<le> right"
proof (induction pivot work left right rule: searchPosition.induct)
  case (1 pivot work left right)
  show ?case
  proof (cases "left < right")
    case True
    define mid where "mid = left + (right - left) div 2"
    from True have m: "left \<le> mid" "mid < right" by (simp_all add: mid_def)
    show ?thesis
    proof (cases "compareTimes pivot (work ! mid) < 0")
      case less: True
      with "1.IH"(1) [OF True mid_def less] m True show ?thesis
        by (subst (1 2) searchPosition.simps) (simp add: mid_def Let_def)
    next
      case geq: False
      from m have "mid + 1 \<le> right" by simp
      with "1.IH"(2) [OF True mid_def geq] m True geq show ?thesis
        by (subst (1 2) searchPosition.simps) (simp add: mid_def Let_def)
    qed
  next
    case False
    with "1.prems" show ?thesis by (subst (1 2) searchPosition.simps) simp
  qed
qed

lemma insertPivot_eq:
  assumes "start < length work"
  shows "\<exists>left \<le> start. insertPivot work start =
           take left work @ [work ! start] @ take (start - left) (drop left work) @
           drop (start + 1) work"
  using searchPosition_bounds [of 0 start "work ! start" work]
  by (auto simp add: insertPivot_def Let_def)

lemma mset_insertPivot:
  assumes "start < length work"
  shows "mset (insertPivot work start) = mset work"
proof -
  from insertPivot_eq [OF assms] obtain left where l: "left \<le> start"
    and eq: "insertPivot work start =
           take left work @ [work ! start] @ take (start - left) (drop left work) @
           drop (start + 1) work" by blast
  from l have "take start work = take left work @ take (start - left) (drop left work)"
    by (metis le_add_diff_inverse take_add)
  moreover have "work = take start work @ work ! start # drop (start + 1) work"
    using assms by (simp add: id_take_nth_drop)
  ultimately have "mset work =
      mset (take left work @ take (start - left) (drop left work) @ [work ! start] @
        drop (start + 1) work)"
    by (metis append.assoc append_Cons append_Nil)
  then show ?thesis by (simp add: eq)
qed

lemma length_insertPivot:
  assumes "start < length work"
  shows "length (insertPivot work start) = length work"
  using mset_insertPivot [OF assms] by (metis size_mset)

lemma mset_binaryInsertionSort:
  "start + remaining \<le> length work \<Longrightarrow>
   mset (binaryInsertionSort work start remaining) = mset work"
proof (induction remaining arbitrary: work start)
  case 0
  then show ?case by simp
next
  case (Suc remaining)
  then have s: "start < length work" by simp
  from Suc.prems have "start + 1 + remaining \<le> length (insertPivot work start)"
    by (simp add: length_insertPivot [OF s])
  from Suc.IH [OF this] show ?case
    by (simp add: mset_insertPivot [OF s])
qed

lemma mset_makeRun: "mset (makeRun work) = mset work"
proof -
  have "mset (rev (take n work) @ drop n work) = mset work" for n
    by (metis append_take_drop_id mset_append mset_rev)
  then show ?thesis
    unfolding makeRun_def by (auto split: list.splits simp del: mset_append mset_rev)
qed

lemma extendRun_le: "extendRun d p rest \<le> length rest"
  by (induction rest arbitrary: p) (auto simp add: Let_def)

lemma countRun_le: "countRun work \<le> length work"
  using extendRun_le by (auto simp add: countRun_def split: list.splits)

lemma mset_engineSort: "mset (engineSort es) = mset es"
proof -
  have "length (makeRun es) = length es"
    using mset_makeRun by (metis size_mset)
  then have "countRun es + (length es - countRun es) \<le> length (makeRun es)"
    using countRun_le [of es] by simp
  then show ?thesis
    by (simp add: engineSort_def mset_binaryInsertionSort mset_makeRun)
qed

lemma mset_sortByTime: "mset (sortByTime es) = mset es"
  by (simp add: sortByTime_def mset_engineSort)

lemma set_sortByTime: "set (sortByTime es) = set es"
  using mset_sortByTime by (metis set_mset_mset)



section \<open>The gathered events\<close>

lemma pushEvents_oids:
  "map oid acc = [0..<length acc] \<Longrightarrow>
   map oid (foldl (\<lambda>acc e. acc @ [e\<lparr>sessionId := Some i, oid := length acc\<rparr>]) acc es)
     = [0..<length (foldl (\<lambda>acc e. acc @ [e\<lparr>sessionId := Some i, oid := length acc\<rparr>]) acc es)]"
  by (induction es arbitrary: acc) auto

lemma foldl_pushEvents_oids:
  "map oid acc = [0..<length acc] \<Longrightarrow>
   map oid (foldl pushEvents acc ss) = [0..<length (foldl pushEvents acc ss)]"
proof (induction ss arbitrary: acc)
  case Nil
  then show ?case by simp
next
  case (Cons s ss)
  have "map oid (pushEvents acc s) = [0..<length (pushEvents acc s)]"
    unfolding pushEvents_def using Cons.prems by (rule pushEvents_oids)
  then show ?case using Cons.IH by simp
qed

lemma gather_oids: "map oid (gather ss) = [0..<length (gather ss)]"
  unfolding gather_def by (rule foldl_pushEvents_oids) simp

lemma distinct_oid_gather: "distinct (map oid (gather ss))"
  by (simp add: gather_oids)

lemma distinct_oid_allEvents: "distinct (map oid (allEvents ss))"
proof -
  have "mset (map oid (allEvents ss)) = mset (map oid (gather ss))"
    by (simp add: allEvents_def mset_sortByTime)
  then show ?thesis
    using distinct_oid_gather mset_eq_imp_distinct_iff by blast
qed

lemma distinct_oid_prompts: "distinct (map oid (prompts ss))"
  unfolding prompts_def using distinct_oid_allEvents by (rule distinct_map_filter)

lemma distinct_oid_nonPrompts: "distinct (map oid (nonPrompts ss))"
  unfolding nonPrompts_def using distinct_oid_allEvents by (rule distinct_map_filter)

text \<open>A copy has the time value of its original.\<close>

lemma parses_copy: "parses (e\<lparr>sessionId := x, oid := k\<rparr>) = parses e"
  by (simp add: parses_def getTime_def)

lemma pushEvents_parse:
  "list_all parses acc \<Longrightarrow> list_all parses es \<Longrightarrow>
   list_all parses (foldl (\<lambda>acc e. acc @ [e\<lparr>sessionId := Some i, oid := length acc\<rparr>]) acc es)"
  by (induction es arbitrary: acc) (simp_all add: parses_copy)

lemma foldl_pushEvents_parse:
  "list_all parses acc \<Longrightarrow> allParse ss \<Longrightarrow> list_all parses (foldl pushEvents acc ss)"
proof (induction ss arbitrary: acc)
  case Nil
  then show ?case by simp
next
  case (Cons s ss)
  from Cons.prems have "list_all parses (pushEvents acc s)"
    unfolding pushEvents_def by (intro pushEvents_parse) (simp_all add: allParse_def)
  with Cons.IH Cons.prems show ?case by (simp add: allParse_def)
qed

lemma gather_parse: "allParse ss \<Longrightarrow> list_all parses (gather ss)"
  unfolding gather_def by (rule foldl_pushEvents_parse) simp

lemma allEvents_parse: "allParse ss \<Longrightarrow> list_all parses (allEvents ss)"
  using gather_parse [of ss] by (simp add: allEvents_def list_all_iff set_sortByTime)

lemma prompts_parse: "allParse ss \<Longrightarrow> p \<in> set (prompts ss) \<Longrightarrow> parses p"
  using allEvents_parse [of ss] by (simp add: prompts_def list_all_iff)

lemma nonPrompts_parse: "allParse ss \<Longrightarrow> a \<in> set (nonPrompts ss) \<Longrightarrow> parses a"
  using allEvents_parse [of ss] by (simp add: nonPrompts_def list_all_iff)

lemma sorted_allEvents: "allParse ss \<Longrightarrow> sorted (map msOf (allEvents ss))"
  using gather_parse [of ss] by (simp add: allEvents_def sortByTime_def)

lemma sorted_prompts: "allParse ss \<Longrightarrow> sorted (map msOf (prompts ss))"
  unfolding prompts_def using sorted_allEvents by (rule sorted_filter)

text \<open>Between events whose timestamps parse, the comparisons are those of the numbers.\<close>

lemma lessTime_msOf:
  "parses a \<Longrightarrow> parses b \<Longrightarrow> lessTime (getTime a) (getTime b) = (msOf a < msOf b)"
  by (cases "getTime a"; cases "getTime b") (simp_all add: parses_def msOf_def)

lemma getTime_eq_msOf:
  "parses a \<Longrightarrow> parses b \<Longrightarrow> (getTime a = getTime b) = (msOf a = msOf b)"
  by (cases "getTime a"; cases "getTime b") (simp_all add: parses_def msOf_def)

lemma lessTime_parses: "lessTime (getTime a) (getTime b) \<Longrightarrow> parses a \<and> parses b"
  by (cases "getTime a"; cases "getTime b") (simp_all add: parses_def)

lemma noSessionLoop_map:
  "noSessionLoop ps acts i groups = groups @ map (groupAt ps acts) [i..<length ps]"
proof (induction ps acts i groups rule: noSessionLoop.induct)
  case (1 ps acts i groups)
  show ?case
  proof (cases "i < length ps")
    case True
    then have "[i..<length ps] = i # [i + 1..<length ps]"
      by (simp add: upt_conv_Cons)
    with True "1.IH" show ?thesis
      by (subst noSessionLoop.simps) (simp add: Let_def groupAt_def)
  next
    case False
    then show ?thesis by (subst noSessionLoop.simps) simp
  qed
qed

lemma noSession_groups:
  "workflowGroups (Some ''no_session'') ss =
     map (groupAt (prompts ss) (nonPrompts ss)) [0..<length (prompts ss)]"
  by (simp add: workflowGroups_def noSessionLoop_map)

lemma actions_groupAt:
  "i < length ps \<Longrightarrow>
   a \<in> set (actions (groupAt ps acts i)) \<longleftrightarrow>
     a \<in> set acts \<and> lessTime (getTime (ps ! i)) (getTime a) \<and>
     (i + 1 < length ps \<longrightarrow> lessTime (getTime a) (getTime (ps ! (i + 1))))"
  using lessTime_parses [of "ps ! i" a]
  by (auto simp add: groupAt_def relatedActions_def lessThanTime_def Let_def parses_def)

lemma actions_groupAt_window:
  assumes "i < length ps" "list_all parses ps" "parses a"
  shows "a \<in> set (actions (groupAt ps acts i)) \<longleftrightarrow> a \<in> set acts \<and> inWindow ps i (msOf a)"
proof -
  from assms have pi: "parses (ps ! i)" by (simp add: list_all_length)
  have pn: "parses (ps ! (i + 1))" if "i + 1 < length ps"
    using that assms by (simp add: list_all_length)
  show ?thesis
    using pi pn assms(3)
    by (auto simp add: actions_groupAt [OF assms(1)] inWindow_def lessTime_msOf)
qed

section \<open>Ownership windows of the \<open>no_session\<close> view\<close>

lemma sorted_msOf_mono:
  assumes "sorted (map msOf ps)" "i \<le> j" "j < length ps"
  shows "msOf (ps ! i) \<le> msOf (ps ! j)"
proof -
  have "map msOf ps ! i \<le> map msOf ps ! j"
    using assms by (intro sorted_nth_mono) simp_all
  then show ?thesis using assms by simp
qed

lemma inWindow_unique:
  assumes srt: "sorted (map msOf ps)"
    and i: "i < length ps" and j: "j < length ps"
    and wi: "inWindow ps i t" and wj: "inWindow ps j t"
  shows "i = j"
proof (rule ccontr)
  assume ne: "i \<noteq> j"
  have aux: False
    if lt: "k < l" and l: "l < length ps" and wk: "inWindow ps k t" and wl: "inWindow ps l t"
    for k l
  proof -
    from lt l have "k + 1 < length ps" by simp
    with wk have "t < msOf (ps ! (k + 1))" by (simp add: inWindow_def)
    also have "msOf (ps ! (k + 1)) \<le> msOf (ps ! l)"
      using srt lt l by (intro sorted_msOf_mono) simp_all
    also have "msOf (ps ! l) < t" using wl by (simp add: inWindow_def)
    finally show False .
  qed
  from ne consider "i < j" | "j < i" by linarith
  then show False
  proof cases
    case 1
    then show False using aux j wi wj by blast
  next
    case 2
    then show False using aux i wi wj by blast
  qed
qed

lemma inWindow_exists:
  assumes srt: "sorted (map msOf ps)"
    and before: "\<exists>p\<in>set ps. msOf p < t"
    and noTie: "\<forall>p\<in>set ps. msOf p \<noteq> t"
  shows "\<exists>i<length ps. inWindow ps i t"
proof -
  let ?I = "{i. i < length ps \<and> msOf (ps ! i) < t}"
  have fin: "finite ?I" by simp
  from before obtain k where "k < length ps" "msOf (ps ! k) < t"
    by (auto simp: in_set_conv_nth)
  then have ne: "?I \<noteq> {}" by blast
  define m where "m = Max ?I"
  have mI: "m \<in> ?I" unfolding m_def using fin ne by (rule Max_in)
  have "t < msOf (ps ! (m + 1))" if nxt: "m + 1 < length ps"
  proof -
    have "m + 1 \<notin> ?I"
    proof
      assume "m + 1 \<in> ?I"
      then have "m + 1 \<le> m" unfolding m_def using fin by (intro Max_ge)
      then show False by simp
    qed
    with nxt have "t \<le> msOf (ps ! (m + 1))" by simp
    moreover have "msOf (ps ! (m + 1)) \<noteq> t"
      using noTie nxt nth_mem by blast
    ultimately show ?thesis by simp
  qed
  with mI show ?thesis by (auto simp: inWindow_def)
qed

lemma inWindow_cond:
  assumes srt: "sorted (map msOf ps)"
    and i: "i < length ps" and w: "inWindow ps i t"
  shows "(\<exists>p\<in>set ps. msOf p < t) \<and> (\<forall>p\<in>set ps. msOf p \<noteq> t)"
proof
  show "\<exists>p\<in>set ps. msOf p < t"
    using i w nth_mem by (auto simp: inWindow_def)
  show "\<forall>p\<in>set ps. msOf p \<noteq> t"
  proof
    fix p assume "p \<in> set ps"
    then obtain j where j: "j < length ps" and p: "p = ps ! j"
      by (auto simp: in_set_conv_nth)
    show "msOf p \<noteq> t"
    proof (cases "j \<le> i")
      case True
      then have "msOf (ps ! j) \<le> msOf (ps ! i)"
        using srt i by (intro sorted_msOf_mono)
      with w p show ?thesis by (simp add: inWindow_def)
    next
      case False
      then have nxt: "i + 1 < length ps" and le: "i + 1 \<le> j" using j by simp_all
      have "msOf (ps ! (i + 1)) \<le> msOf (ps ! j)"
        using srt le j by (intro sorted_msOf_mono)
      with w nxt p show ?thesis by (simp add: inWindow_def)
    qed
  qed
qed

lemma count_windows:
  assumes srt: "sorted (map msOf ps)"
  shows "length (filter (\<lambda>i. inWindow ps i t) [0..<length ps]) =
         (if (\<exists>p\<in>set ps. msOf p < t) \<and> (\<forall>p\<in>set ps. msOf p \<noteq> t) then 1 else 0)"
proof (cases "\<exists>i<length ps. inWindow ps i t")
  case True
  then obtain i where i: "i < length ps" and w: "inWindow ps i t" by blast
  have "{j. inWindow ps j t} \<inter> set [0..<length ps] = {i}"
    using i w inWindow_unique [OF srt] by auto
  then have "length (filter (\<lambda>i. inWindow ps i t) [0..<length ps]) = 1"
    by (simp add: distinct_length_filter)
  with inWindow_cond [OF srt i w] show ?thesis by simp
next
  case False
  then have "filter (\<lambda>i. inWindow ps i t) [0..<length ps] = []"
    by (auto simp: filter_empty_conv)
  with False inWindow_exists [OF srt] show ?thesis by auto
qed

lemmas corpus_defs =
  corpus1_def corpus2_def received_def copied_def

lemmas correlator_defs =
  prompts_def nonPrompts_def allEvents_def gather_def pushEvents_def sortByTime_def
  isPrompt_def getTime_def parses_def msOf_def

lemma prompts_corpus1:
  "prompts corpus1 =
     [copied 0 ''no_session'' (received ''p1'' 36000000 ''prompt''),
      copied 1 ''no_session'' (received ''p2'' 36300000 ''prompt'')]"
  by (simp add: corpus_defs correlator_defs)

lemma nonPrompts_corpus1:
  "nonPrompts corpus1 =
     [copied 2 ''A'' (received ''w1'' 36060000 ''file_write''),
      copied 3 ''A'' (received ''c1'' 36360000 ''command'')]"
  by (simp add: corpus_defs correlator_defs)

lemma prompts_corpus2:
  "prompts corpus2 =
     [copied 0 ''no_session'' (received ''p1'' 36000000 ''prompt''),
      copied 1 ''no_session'' (received ''p2'' 36300000 ''prompt'')]"
  by (simp add: corpus_defs correlator_defs)

lemma nonPrompts_corpus2:
  "nonPrompts corpus2 =
     [copied 4 ''B'' (received ''r0'' 35940000 ''file_read''),
      copied 2 ''A'' (received ''w1'' 36060000 ''file_write''),
      copied 5 ''B'' (received ''c2'' 36300000 ''command''),
      copied 3 ''A'' (received ''c1'' 36360000 ''command'')]"
  by (simp add: corpus_defs correlator_defs)

lemma allParse_corpus1: "allParse corpus1"
  by (simp add: allParse_def corpus_defs parses_def getTime_def)

lemma allParse_corpus2: "allParse corpus2"
  by (simp add: allParse_def corpus_defs parses_def getTime_def)

section \<open>The \<open>no_session\<close> view: coverage and windows\<close>

text \<open>
  Claim C1, as the code has it, for sessions in which every timestamp parses. Correlating
  with target \<open>no_session\<close> puts a non-prompt event in at most one group, never in two. It
  puts the event in exactly one group when some prompt is strictly earlier than the event and
  no prompt carries the event's own timestamp; otherwise (the event precedes every prompt, or
  shares its timestamp with a prompt) the event is in no group at all.
\<close>

theorem noSession_assignment:
  assumes parse: "allParse ss" and a: "a \<in> set (nonPrompts ss)"
  shows "length (groupsOf a (workflowGroups (Some ''no_session'') ss)) =
         (if (\<exists>p\<in>set (prompts ss). lessTime (getTime p) (getTime a)) \<and>
             (\<forall>p\<in>set (prompts ss). getTime p \<noteq> getTime a) then 1 else 0)"
proof -
  let ?ps = "prompts ss" and ?acts = "nonPrompts ss"
  have pa: "parses a" using parse a by (rule nonPrompts_parse)
  have pp: "list_all parses ?ps"
    using prompts_parse [OF parse] by (simp add: list_all_iff)
  have "filter (\<lambda>i. a \<in> set (actions (groupAt ?ps ?acts i))) [0..<length ?ps] =
        filter (\<lambda>i. inWindow ?ps i (msOf a)) [0..<length ?ps]"
    using a pa pp by (intro filter_cong) (simp_all add: actions_groupAt_window)
  then have "length (groupsOf a (workflowGroups (Some ''no_session'') ss)) =
        length (filter (\<lambda>i. inWindow ?ps i (msOf a)) [0..<length ?ps])"
    by (simp add: groupsOf_def noSession_groups filter_map comp_def)
  also have "\<dots> = (if (\<exists>p\<in>set ?ps. msOf p < msOf a) \<and> (\<forall>p\<in>set ?ps. msOf p \<noteq> msOf a)
                     then 1 else 0)"
    by (rule count_windows [OF sorted_prompts [OF parse]])
  also have "\<dots> = (if (\<exists>p\<in>set ?ps. lessTime (getTime p) (getTime a)) \<and>
                         (\<forall>p\<in>set ?ps. getTime p \<noteq> getTime a) then 1 else 0)"
    using prompts_parse [OF parse] pa by (simp add: lessTime_msOf getTime_eq_msOf)
  finally show ?thesis .
qed

text \<open>In the first corpus the file write of 10:01 is in exactly one group.\<close>

theorem noSession_assignment_witness:
  "allParse corpus1 \<and>
   copied 2 ''A'' (received ''w1'' 36060000 ''file_write'') \<in> set (nonPrompts corpus1) \<and>
   length (groupsOf (copied 2 ''A'' (received ''w1'' 36060000 ''file_write''))
            (workflowGroups (Some ''no_session'') corpus1)) = 1"
proof -
  have mem: "copied 2 ''A'' (received ''w1'' 36060000 ''file_write'') \<in> set (nonPrompts corpus1)"
    by (simp add: nonPrompts_corpus1)
  show ?thesis
    using mem allParse_corpus1 noSession_assignment [OF allParse_corpus1 mem]
    by (simp add: prompts_corpus1 getTime_def received_def copied_def)
qed

text \<open>
  The second corpus has prompts, all its timestamps parse, and its file read of 09:59 is a
  non-prompt event that is in no group: coverage fails.
\<close>

theorem noSession_coverage_counterexample:
  "allParse corpus2 \<and>
   prompts corpus2 \<noteq> [] \<and>
   copied 4 ''B'' (received ''r0'' 35940000 ''file_read'') \<in> set (nonPrompts corpus2) \<and>
   length (groupsOf (copied 4 ''B'' (received ''r0'' 35940000 ''file_read''))
            (workflowGroups (Some ''no_session'') corpus2)) = 0"
  by (simp add: allParse_corpus2 noSession_groups prompts_corpus2 nonPrompts_corpus2
      groupsOf_def groupAt_def relatedActions_def lessThanTime_def getTime_def received_def
      copied_def upt_rec)

text \<open>
  Claim C2, as the code has it. In the \<open>no_session\<close> view the group at index \<open>i\<close> is anchored
  at the \<open>i\<close>-th prompt of the list of prompts that the code has sorted, and an event is
  among its actions if and only if it is a non-prompt event whose timestamp \<open>t\<close> satisfies
  \<open>timestamp(prompt\<^sub>i) < t < timestamp(prompt\<^sub>i\<^sub>+\<^sub>1)\<close>, both bounds strict, with no upper
  bound for the last prompt. The comparisons are those of the code: one with a timestamp that
  does not parse is false.
\<close>

theorem noSession_window:
  assumes i: "i < length (prompts ss)"
  shows "prompt (workflowGroups (Some ''no_session'') ss ! i) = Some (prompts ss ! i) \<and>
         (a \<in> set (actions (workflowGroups (Some ''no_session'') ss ! i)) \<longleftrightarrow>
            a \<in> set (nonPrompts ss) \<and>
            lessTime (getTime (prompts ss ! i)) (getTime a) \<and>
            (i + 1 < length (prompts ss) \<longrightarrow>
               lessTime (getTime a) (getTime (prompts ss ! (i + 1)))))"
  using i by (simp add: noSession_groups actions_groupAt) (simp add: groupAt_def)

text \<open>In the first corpus the command of 10:06 belongs to the group of the second prompt.\<close>

theorem noSession_window_witness:
  "(1::nat) < length (prompts corpus1) \<and>
   prompt (workflowGroups (Some ''no_session'') corpus1 ! 1) =
     Some (copied 1 ''no_session'' (received ''p2'' 36300000 ''prompt'')) \<and>
   copied 3 ''A'' (received ''c1'' 36360000 ''command'')
     \<in> set (actions (workflowGroups (Some ''no_session'') corpus1 ! 1))"
proof -
  have len: "(1::nat) < length (prompts corpus1)"
    by (simp add: prompts_corpus1)
  show ?thesis
    using len noSession_window [OF len, of "copied 3 ''A'' (received ''c1'' 36360000 ''command'')"]
    by (simp add: prompts_corpus1 nonPrompts_corpus1 getTime_def received_def copied_def)
qed

text \<open>
  In the second corpus the command \<open>c2\<close> has the timestamp of the second prompt, which is
  the last one: it lies in the half-open window \<open>[timestamp(prompt\<^sub>1), +\<infinity>)\<close>, and it is not
  among the actions of that prompt's group.
\<close>

theorem noSession_window_counterexample:
  "getTime (prompts corpus2 ! 1) = Ms 36300000 \<and>
   getTime (copied 5 ''B'' (received ''c2'' 36300000 ''command'')) = Ms 36300000 \<and>
   length (prompts corpus2) = 2 \<and>
   copied 5 ''B'' (received ''c2'' 36300000 ''command'') \<in> set (nonPrompts corpus2) \<and>
   copied 5 ''B'' (received ''c2'' 36300000 ''command'')
     \<notin> set (actions (workflowGroups (Some ''no_session'') corpus2 ! 1))"
  by (simp add: noSession_groups prompts_corpus2 nonPrompts_corpus2 groupAt_def
      relatedActions_def lessThanTime_def getTime_def received_def copied_def)

section \<open>The view of a specific session\<close>

lemma indexOfFrom_nth:
  "distinct (map oid qs) \<Longrightarrow> i < length qs \<Longrightarrow> indexOfFrom qs (qs ! i) k = k + int i"
proof (induction qs arbitrary: i k)
  case Nil
  then show ?case by simp
next
  case (Cons q qs)
  show ?case
  proof (cases i)
    case 0
    then show ?thesis by simp
  next
    case (Suc j)
    with Cons.prems have j: "j < length qs" by simp
    then have "oid (qs ! j) \<in> oid ` set qs" by simp
    with Cons.prems have ne: "oid q \<noteq> oid (qs ! j)" by auto
    from Cons.prems have "distinct (map oid qs)" by simp
    from Cons.IH [OF this j] ne Suc show ?thesis by simp
  qed
qed

lemma indexOf_nth:
  "distinct (map oid qs) \<Longrightarrow> i < length qs \<Longrightarrow> indexOf qs (qs ! i) = int i"
  by (simp add: indexOf_def indexOfFrom_nth)

lemma nextRelevantTime_nth:
  assumes "distinct (map oid rel)" "i < length rel"
  shows "nextRelevantTime rel (rel ! i) =
         (if i + 1 < length rel then Some (getTime (rel ! (i + 1))) else None)"
proof -
  have "nat (int i + 1) = i + 1" by simp
  then show ?thesis
    using assms by (auto simp add: nextRelevantTime_def indexOf_nth)
qed

lemma sessionLoop_prompts:
  "map prompt (sessionLoop rel sessionEvents rest groups) =
     map prompt groups @ map Some (filter (kept rel sessionEvents) rest)"
  by (induction rest arbitrary: groups)
     (simp_all add: Let_def kept_def nextRelevantTime_def)

lemma sessionLoop_emits:
  "(\<exists>g\<in>set (sessionLoop rel sessionEvents rel []). prompt g = Some p) \<longleftrightarrow>
     p \<in> set rel \<and> kept rel sessionEvents p"
proof -
  have "(\<exists>g\<in>set (sessionLoop rel sessionEvents rel []). prompt g = Some p) \<longleftrightarrow>
        Some p \<in> set (map prompt (sessionLoop rel sessionEvents rel []))"
    by (force simp: image_iff)
  also have "\<dots> \<longleftrightarrow> p \<in> set rel \<and> kept rel sessionEvents p"
    by (auto simp add: sessionLoop_prompts)
  finally show ?thesis .
qed


lemma kept_nth:
  assumes "distinct (map oid rel)" "i < length rel"
  shows "kept rel sessionEvents (rel ! i) \<longleftrightarrow>
         (\<exists>a\<in>set sessionEvents. lessTime (getTime (rel ! i)) (getTime a) \<and>
             (i + 1 < length rel \<longrightarrow> lessTime (getTime a) (getTime (rel ! (i + 1))))) \<or>
         length rel = 1"
proof -
  have "relatedActions (getTime (rel ! i)) (nextRelevantTime rel (rel ! i)) sessionEvents \<noteq> [] \<longleftrightarrow>
        (\<exists>a\<in>set sessionEvents. lessTime (getTime (rel ! i)) (getTime a) \<and>
             (i + 1 < length rel \<longrightarrow> lessTime (getTime a) (getTime (rel ! (i + 1)))))"
    using lessTime_parses [of "rel ! i"]
    by (auto simp add: nextRelevantTime_nth [OF assms] relatedActions_def lessThanTime_def
        filter_empty_conv Let_def parses_def)
  then show ?thesis by (simp add: kept_def)
qed




lemma session_branch:
  assumes "sel \<noteq> []" "sel \<noteq> ''no_session''"
    and "find (\<lambda>s. session_id s = sel) ss = Some s" "events s \<noteq> []"
  shows "workflowGroups (Some sel) ss = sessionGroups (prompts ss) (sortByTime (events s))"
  using assms by (simp add: workflowGroups_def)

lemma distinct_oid_relevantPrompts: "distinct (map oid (relevantPrompts (prompts ss) t))"
  unfolding relevantPrompts_def using distinct_oid_prompts by (rule distinct_map_filter)






section \<open>The example sessions\<close>

lemmas corpus_defs2 = corpus3_def corpus4_def corpus5_def sessionS_def received_def copied_def



lemma prompts_corpus5:
  "prompts corpus5 =
     [copied 0 ''no_session'' (received ''q3'' 36360000 ''prompt''),
      copied 1 ''no_session'' (received ''q4'' 36480000 ''prompt'')]"
  by (simp add: corpus_defs2 correlator_defs)


lemma sorted_sessionS:
  "sortByTime (events sessionS) =
     [received ''a1'' 36600000 ''file_write'', received ''a2'' 36720000 ''command'']"
  by (simp add: sessionS_def received_def sortByTime_def getTime_def parses_def msOf_def)

lemma earliest_sessionS: "earliestActionTime (sortByTime (events sessionS)) = Ms 36600000"
  by (simp add: sorted_sessionS earliestActionTime_def getTime_def received_def)



lemma relevant_corpus5:
  "relevantPrompts (prompts corpus5) (Ms 36600000) =
     [copied 0 ''no_session'' (received ''q3'' 36360000 ''prompt''),
      copied 1 ''no_session'' (received ''q4'' 36480000 ''prompt'')]"
  by (simp add: prompts_corpus5 relevantPrompts_def getTime_def received_def copied_def)

lemma find_S:
  "find (\<lambda>s. session_id s = ''S'') corpus3 = Some sessionS"
  "find (\<lambda>s. session_id s = ''S'') corpus4 = Some sessionS"
  "find (\<lambda>s. session_id s = ''S'') corpus5 = Some sessionS"
  by (simp_all add: corpus3_def corpus4_def corpus5_def sessionS_def)

lemma events_S: "events sessionS \<noteq> []"
  by (simp add: sessionS_def)








section \<open>The view of a specific session: relevant prompts and emitted groups\<close>




text \<open>
  Claim C4. In the view of a specific session, the relevant prompt at position \<open>i\<close> anchors a
  group of the result if and only if some event of the session lies in its window (after the
  prompt and before the next relevant prompt, if there is one), or it is the only relevant
  prompt. The loop run on a single relevant prompt pushes that prompt's group whatever the
  session events are, also when none of them is matched.
\<close>

theorem session_prompt_kept:
  assumes sel: "sel \<noteq> []" "sel \<noteq> ''no_session''"
    and s: "find (\<lambda>s. session_id s = sel) ss = Some s" "events s \<noteq> []"
    and rel: "rel = relevantPrompts (prompts ss) (earliestActionTime (sortByTime (events s)))"
    and i: "i < length rel"
  shows "((\<exists>g\<in>set (workflowGroups (Some sel) ss). prompt g = Some (rel ! i)) \<longleftrightarrow>
            (\<exists>a\<in>set (events s).
               lessTime (getTime (rel ! i)) (getTime a) \<and>
               (i + 1 < length rel \<longrightarrow> lessTime (getTime a) (getTime (rel ! (i + 1))))) \<or>
            length rel = 1) \<and>
         sessionLoop [p] sessionEvents [p] [] =
           [\<lparr>prompt = Some p, actions = relatedActions (getTime p) None sessionEvents,
             group_id = groupId p 0\<rparr>]"
proof
  let ?ses = "sortByTime (events s)"
  have dist: "distinct (map oid rel)"
    unfolding rel by (rule distinct_oid_relevantPrompts)
  have set_eq: "set ?ses = set (events s)" by (rule set_sortByTime)
  have "(\<exists>g\<in>set (workflowGroups (Some sel) ss). prompt g = Some (rel ! i)) \<longleftrightarrow>
        (\<exists>g\<in>set (sessionLoop rel ?ses rel []). prompt g = Some (rel ! i))"
    by (auto simp add: session_branch [OF sel s] sessionGroups_def Let_def rel)
  also have "\<dots> \<longleftrightarrow> kept rel ?ses (rel ! i)"
    using i by (simp add: sessionLoop_emits)
  finally show "(\<exists>g\<in>set (workflowGroups (Some sel) ss). prompt g = Some (rel ! i)) \<longleftrightarrow>
            (\<exists>a\<in>set (events s).
               lessTime (getTime (rel ! i)) (getTime a) \<and>
               (i + 1 < length rel \<longrightarrow> lessTime (getTime a) (getTime (rel ! (i + 1))))) \<or>
            length rel = 1"
    by (simp only: kept_nth [OF dist i] set_eq)
  show "sessionLoop [p] sessionEvents [p] [] =
           [\<lparr>prompt = Some p, actions = relatedActions (getTime p) None sessionEvents,
             group_id = groupId p 0\<rparr>]"
    by (simp add: indexOf_def Let_def)
qed

text \<open>
  With relevant prompts at 10:06 and 10:08 before the session \<open>S\<close>, the later one anchors a
  group and the earlier one, whose window ends at 10:08, does not; a single prompt with no
  event to match still gets its group.
\<close>

theorem session_prompt_kept_witness:
  "(\<exists>g\<in>set (workflowGroups (Some ''S'') corpus5).
      prompt g = Some (copied 1 ''no_session'' (received ''q4'' 36480000 ''prompt''))) \<and>
   \<not> (\<exists>g\<in>set (workflowGroups (Some ''S'') corpus5).
      prompt g = Some (copied 0 ''no_session'' (received ''q3'' 36360000 ''prompt''))) \<and>
   sessionLoop [received ''q3'' 36360000 ''prompt''] [] [received ''q3'' 36360000 ''prompt''] [] =
     [\<lparr>prompt = Some (received ''q3'' 36360000 ''prompt''), actions = [], group_id = ''q3''\<rparr>]"
proof -
  have sel: "''S'' \<noteq> []" "''S'' \<noteq> ''no_session''" by simp_all
  have rel: "[copied 0 ''no_session'' (received ''q3'' 36360000 ''prompt''),
              copied 1 ''no_session'' (received ''q4'' 36480000 ''prompt'')] =
             relevantPrompts (prompts corpus5) (earliestActionTime (sortByTime (events sessionS)))"
    by (simp add: earliest_sessionS relevant_corpus5)
  note k = session_prompt_kept [OF sel find_S(3) events_S rel]
  have i0: "0 < length [copied 0 ''no_session'' (received ''q3'' 36360000 ''prompt''),
              copied 1 ''no_session'' (received ''q4'' 36480000 ''prompt'')]" by simp
  have i1: "1 < length [copied 0 ''no_session'' (received ''q3'' 36360000 ''prompt''),
              copied 1 ''no_session'' (received ''q4'' 36480000 ''prompt'')]" by simp
  have a: "\<exists>g\<in>set (workflowGroups (Some ''S'') corpus5).
      prompt g = Some (copied 1 ''no_session'' (received ''q4'' 36480000 ''prompt''))"
    using k [OF i1, THEN conjunct1]
    by (simp add: sessionS_def getTime_def received_def copied_def)
  have b: "\<not> (\<exists>g\<in>set (workflowGroups (Some ''S'') corpus5).
      prompt g = Some (copied 0 ''no_session'' (received ''q3'' 36360000 ''prompt'')))"
    using k [OF i0, THEN conjunct1]
    by (simp add: sessionS_def getTime_def received_def copied_def)
  have c: "sessionLoop [received ''q3'' 36360000 ''prompt''] [] [received ''q3'' 36360000 ''prompt''] [] =
     [\<lparr>prompt = Some (received ''q3'' 36360000 ''prompt''), actions = [], group_id = ''q3''\<rparr>]"
    using k [OF i0, THEN conjunct2, of "received ''q3'' 36360000 ''prompt''" "[]"]
    by (simp add: relatedActions_def groupId_def received_def)
  from a b c show ?thesis by blast
qed




section \<open>The two App variants\<close>

text \<open>
  Claim C10. The \<^verbatim>\<open>workflowGroups\<close> functions of the two App variants return the same list
  of groups for every selected session and every list of sessions.
\<close>

theorem workflowGroups_variants_equal:
  "workflowGroups selectedSession ss = workflowGroups2 selectedSession ss"
  by (simp add: workflowGroups_def workflowGroups2_def sessionGroups_def prompts_def
      nonPrompts_def allEvents_def Let_def split: option.splits)

section \<open>A prompt whose timestamp does not parse\<close>

text \<open>
  Where a timestamp does not parse the prompts need not be in chronological order, and an
  event can be in two groups: here the command of 10:02 is in the group of the prompt of
  10:00 and in the group of the prompt of 09:55.
\<close>

lemma unparsable_prompt_two_groups:
  "map event_id (prompts corpus7) = [''p'', ''q'', ''x'', ''r'', ''s''] \<and>
   map (\<lambda>g. map event_id (actions g)) (workflowGroups (Some ''no_session'') corpus7) =
     [[''a''], [], [], [''a''], []]"
  by code_simp

section \<open>Counters and the order of their entries\<close>

lemma increment_map:
  assumes "distinct xs"
  shows "increment (map (\<lambda>x. (x, f x)) xs) k =
         (if k \<in> set xs then map (\<lambda>x. (x, if x = k then f x + 1 else f x)) xs
          else map (\<lambda>x. (x, f x)) xs @ [(k, 1)])"
  using assms by (induction xs) auto

lemma firstSeen_snoc:
  "firstSeen (ks @ [k]) = (if k \<in> set ks then firstSeen ks else firstSeen ks @ [k])"
  by (simp add: firstSeen_def)

lemma set_firstSeen: "set (firstSeen ks) = set ks"
  by (simp add: firstSeen_def)

lemma distinct_firstSeen: "distinct (firstSeen ks)"
  by (simp add: firstSeen_def)

lemma count_list_snoc: "count_list (ks @ [k]) x = count_list ks x + (if x = k then 1 else 0)"
  by (induction ks) auto

lemma count_list_zero: "x \<notin> set ks \<Longrightarrow> count_list ks x = 0"
  by (induction ks) auto

lemma increment_firstSeenCounts:
  "increment (firstSeenCounts ks) k = firstSeenCounts (ks @ [k])"
proof -
  have "increment (firstSeenCounts ks) k =
        (if k \<in> set ks
         then map (\<lambda>x. (x, if x = k then count_list ks x + 1 else count_list ks x)) (firstSeen ks)
         else firstSeenCounts ks @ [(k, 1)])"
    unfolding firstSeenCounts_def
    using increment_map [OF distinct_firstSeen, of "count_list ks" ks k]
    by (simp add: set_firstSeen)
  also have "\<dots> = firstSeenCounts (ks @ [k])"
    by (auto simp add: firstSeenCounts_def firstSeen_snoc count_list_snoc count_list_zero
        set_firstSeen)
  finally show ?thesis .
qed

lemma foldl_increment: "foldl increment [] ks = firstSeenCounts ks"
proof (induction ks rule: rev_induct)
  case Nil
  then show ?case by (simp add: firstSeenCounts_def firstSeen_def)
next
  case (snoc k ks)
  then show ?case by (simp add: increment_firstSeenCounts)
qed

lemma countKeys_plain:
  assumes "\<forall>k\<in>set ks. \<not> isInherited k"
  shows "countKeys ks = Some (firstSeenCounts ks)"
proof -
  from assms have "filter (\<lambda>k. k \<noteq> ''__proto__'') ks = ks"
    by (auto simp add: isInherited_def filter_id_conv)
  moreover from assms have "\<not> list_ex (\<lambda>k. k \<in> set inheritedFunctions) ks"
    by (auto simp add: isInherited_def list_ex_iff)
  ultimately show ?thesis
    by (simp add: countKeys_def foldl_increment)
qed

lemma entries_plain:
  assumes "\<forall>k\<in>set (map fst obj). \<not> isArrayIndex k"
  shows "entries obj = obj"
proof -
  from assms have "filter (\<lambda>(k, n). isArrayIndex k) obj = []"
    by (auto simp add: filter_empty_conv)
  moreover from assms have "filter (\<lambda>(k, n). \<not> isArrayIndex k) obj = obj"
    by (auto simp add: filter_id_conv)
  ultimately show ?thesis by (simp add: entries_def)
qed

lemma keys_firstSeenCounts: "map fst (firstSeenCounts ks) = firstSeen ks"
  by (simp add: firstSeenCounts_def comp_def)

lemma topFilesOf_general:
  assumes "\<forall>k\<in>set (fileNames logs). k \<notin> set inheritedFunctions"
  shows "topFilesOf logs =
         Some (take 8 (sort_key (\<lambda>(k, c). - int c)
           (entries (firstSeenCounts (filter (\<lambda>k. k \<noteq> ''__proto__'') (fileNames logs))))))"
proof -
  from assms have "\<not> list_ex (\<lambda>k. k \<in> set inheritedFunctions) (fileNames logs)"
    by (auto simp add: list_ex_iff)
  then show ?thesis
    by (simp add: topFilesOf_def fileChanges_def countKeys_def foldl_increment topEntries_def)
qed

lemma topFilesOf_plain:
  assumes "\<forall>k\<in>set (fileNames logs). \<not> isInherited k \<and> \<not> isArrayIndex k"
  shows "topFilesOf logs =
         Some (take 8 (sort_key (\<lambda>(k, c). - int c) (firstSeenCounts (fileNames logs))))"
proof -
  from assms have "\<forall>k\<in>set (fileNames logs). \<not> isInherited k" by blast
  then have c: "countKeys (fileNames logs) = Some (firstSeenCounts (fileNames logs))"
    by (rule countKeys_plain)
  from assms have "\<forall>k\<in>set (map fst (firstSeenCounts (fileNames logs))). \<not> isArrayIndex k"
    by (simp add: keys_firstSeenCounts set_firstSeen)
  then have "entries (firstSeenCounts (fileNames logs)) = firstSeenCounts (fileNames logs)"
    by (rule entries_plain)
  with c show ?thesis
    by (simp add: topFilesOf_def fileChanges_def topEntries_def)
qed

lemma sorted_take_desc:
  "sorted (map (\<lambda>(k, c). - int c) (take n (sort_key (\<lambda>(k, c). - int c) xs)))"
proof -
  have "sorted (map (\<lambda>(k, c). - int c) (sort_key (\<lambda>(k, c). - int c) xs))"
    by (rule sorted_sort_key)
  then have "sorted (take n (map (\<lambda>(k, c). - int c) (sort_key (\<lambda>(k, c). - int c) xs)))"
    by (rule sorted_wrt_take)
  then show ?thesis by (simp add: take_map)
qed

lemma ties_stable:
  "filter (\<lambda>(k, c'). c' = c) (sort_key (\<lambda>(k, c). - int c) xs) = filter (\<lambda>(k, c'). c' = c) xs"
proof -
  have "filter (\<lambda>y. (\<lambda>(k, c). - int c) y = - int c) (sort_key (\<lambda>(k, c). - int c) xs) =
        filter (\<lambda>y. (\<lambda>(k, c). - int c) y = - int c) xs"
    by (rule sort_key_stable)
  then show ?thesis by (simp add: case_prod_unfold)
qed

lemma topFilesOf_length: "topFilesOf logs = Some tf \<Longrightarrow> length tf \<le> 8"
  by (auto simp add: topFilesOf_def topEntries_def)

section \<open>Histograms\<close>

lemma length_bumpAt: "length (bumpAt h i) = length h"
  by (simp add: bumpAt_def)

lemma nth_bumpAt: "i < length h \<Longrightarrow> bumpAt h i ! j = (if i = j then h ! j + 1 else h ! j)"
  by (simp add: bumpAt_def nth_list_update)

lemma histogram_step:
  assumes bound: "\<And>t. component tz t < n" and len: "length h = n"
  shows "length (foldl (\<lambda>h l. if log_timestamp l \<noteq> []
                   then (case parseDate (log_timestamp l) of
                           None \<Rightarrow> h
                         | Some t \<Rightarrow> bumpAt h (component tz t))
                   else h) h logs) = n \<and>
         (\<forall>j. foldl (\<lambda>h l. if log_timestamp l \<noteq> []
                   then (case parseDate (log_timestamp l) of
                           None \<Rightarrow> h
                         | Some t \<Rightarrow> bumpAt h (component tz t))
                   else h) h logs ! j =
          h ! j + length (filter (counted component parseDate tz j) logs))"
  using len
proof (induction logs arbitrary: h)
  case Nil
  then show ?case by simp
next
  case (Cons l logs)
  show ?case
  proof (cases "log_timestamp l \<noteq> [] \<and> parseDate (log_timestamp l) \<noteq> None")
    case True
    then obtain t where t: "parseDate (log_timestamp l) = Some t" by auto
    have lb: "length (bumpAt h (component tz t)) = n"
      using Cons.prems by (simp add: length_bumpAt)
    have i: "component tz t < length h" using bound Cons.prems by simp
    from Cons.IH [OF lb] True t i show ?thesis
      by (auto simp add: counted_def nth_bumpAt)
  next
    case False
    with Cons.IH [OF Cons.prems] show ?thesis
      by (auto simp add: counted_def split: option.splits)
  qed
qed

lemma getDay_less: "getDay tz t < 7"
  by (simp add: getDay_def nat_less_iff)

lemma getHours_less: "getHours tz t < 24"
  by (simp add: getHours_def nat_less_iff)

lemma dailyHistogram:
  "length (histogram 7 getDay parseDate tz logs) = 7 \<and>
   (\<forall>j<7. histogram 7 getDay parseDate tz logs ! j =
      length (filter (counted getDay parseDate tz j) logs))"
  unfolding histogram_def
  using histogram_step [of getDay tz 7 "replicate 7 0" parseDate logs, OF getDay_less]
  by simp

lemma rotateDaily_7:
  assumes "length serverDaily = 7"
  shows "rotateDaily (Some serverDaily) = map Some (serverDaily ! 6 # take 6 serverDaily) \<and>
         (\<forall>d<7. rotateDaily (Some serverDaily) ! ((d + 1) mod 7) = Some (serverDaily ! d))"
proof
  show eq: "rotateDaily (Some serverDaily) = map Some (serverDaily ! 6 # take 6 serverDaily)"
    using assms by (simp add: rotateDaily_def)
  show "\<forall>d<7. rotateDaily (Some serverDaily) ! ((d + 1) mod 7) = Some (serverDaily ! d)"
  proof (intro allI impI)
    fix d :: nat assume d: "d < 7"
    show "rotateDaily (Some serverDaily) ! ((d + 1) mod 7) = Some (serverDaily ! d)"
    proof (cases "d = 6")
      case True
      then show ?thesis by (simp add: eq)
    next
      case False
      with d have "d < 6" by simp
      then have "(d + 1) mod 7 = Suc d" by simp
      with \<open>d < 6\<close> assms show ?thesis by (simp add: eq)
    qed
  qed
qed

section \<open>The snapshot and the example logs\<close>

lemma computeMetrics_empty:
  "computeMetrics parseDate tz now [] =
     Some \<lparr>totalEvents = 0, categoryBreakdown = [], hourlyActivity = replicate 24 0,
           maxHourly = 1, dailyActivity = replicate 7 0, dayNames = dayNamesList, maxDaily = 1,
           topFiles = [], topCommands = [], topMcpTools = [], avgEventsPerSession = 0,
           totalLinesAdded = 0, totalLinesRemoved = 0, recentDays = recentDaysOf tz now [],
           maxRecentDaily = 1, uniqueFilesCount = 0, filteredSessionCount = 1\<rparr>"
proof -
  have m: "maxWith1 (replicate n 0) = 1" for n
    by (induction n) (simp_all add: maxWith1_def)
  have r: "map count_day (recentDaysOf tz now []) = replicate 7 0"
    by (simp add: recentDaysOf_def recentDayOf_def Let_def numeral_eq_Suc)
  show ?thesis
    by (simp add: computeMetrics_def countKeys_def fileChanges_def fileNames_def histogram_def
        m topEntries_def entries_def avgEventsPerSessionOf_def filteredSessionCountOf_def
        uniqueSessionIds_def roundDiv_def r)
qed

lemma computeMetrics_fields:
  assumes "computeMetrics parseDate tz now logs = Some m"
  shows "dailyActivity m = histogram 7 getDay parseDate tz logs"
    and "recentDays m = recentDaysOf tz now logs"
  using assms by (auto simp add: computeMetrics_def split: option.splits)

lemma computeMetrics_single:
  "\<exists>m. computeMetrics parseDate tz now [fileWrite ts ''a.py''] = Some m"
  by (simp add: computeMetrics_def countKeys_def fileChanges_def fileNames_def fileNameOf_def
      categoryOf_def hasCategory_def fileWrite_def splitPop_def inheritedFunctions_def)

lemma monday: "getDay utc 1704103200000 = 1"
  by (simp add: getDay_def utc_def)

lemma replicate7: "replicate 7 (0::nat) = [0, 0, 0, 0, 0, 0, 0]"
  by (simp add: numeral_eq_Suc)

lemma histogram_monday:
  "histogram 7 getDay parseExample utc [fileWrite ''2024-01-01T10:00:00Z'' ''a.py''] =
     [0, 1, 0, 0, 0, 0, 0]"
  by (simp add: histogram_def parseExample_def fileWrite_def monday replicate7 bumpAt_def)

lemma isoDates:
  "toISODate 1704103200000 = ''2024-01-01''"
  "toISODate 1704967200000 = ''2024-01-11''"
  by code_simp+

lemma today_count:
  "count_day (recentDaysOf tz now logs ! 6) =
     length (filter (\<lambda>l. startsWith (log_timestamp l) (toISODate now)) logs)"
  by (simp add: recentDaysOf_def recentDayOf_def Let_def)

lemma fileNames_abc:
  "fileNames [fileWrite [] ''src/a.py'', fileWrite [] ''lib/b.py'', fileWrite [] ''a.py''] =
     [''a.py'', ''b.py'', ''a.py'']"
  by (simp add: fileNames_def fileNameOf_def hasCategory_def fileWrite_def splitPop_def)

lemma fileNames_b7:
  "fileNames [fileWrite [] ''src/b.py'', fileWrite [] ''build/7''] = [''b.py'', ''7'']"
  by (simp add: fileNames_def fileNameOf_def hasCategory_def fileWrite_def splitPop_def)

lemma plain_names:
  "\<not> isInherited ''a.py''" "\<not> isArrayIndex ''a.py''"
  "\<not> isInherited ''b.py''" "\<not> isArrayIndex ''b.py''"
  "\<not> isInherited ''7''" "isArrayIndex ''7''"
  by (simp_all add: isInherited_def inheritedFunctions_def isArrayIndex_def)

section \<open>Metrics: the empty set, top files, day of the week, evaluation time\<close>

text \<open>
  Claim C6, as the code has it. For the empty list of log entries the first App variant
  returns a snapshot (it does not fail) in which every count is zero except the session
  count: \<open>filteredSessionCount\<close> is the number of distinct non-empty trajectory ids, or 1
  when there is none (the guard against a division by zero), so it is 1 on the empty list.
\<close>

theorem empty_metrics:
  "map_option totalEvents (computeMetrics parseDate tz now []) = Some 0 \<and>
   map_option categoryBreakdown (computeMetrics parseDate tz now []) = Some [] \<and>
   map_option hourlyActivity (computeMetrics parseDate tz now []) = Some (replicate 24 0) \<and>
   map_option dailyActivity (computeMetrics parseDate tz now []) = Some (replicate 7 0) \<and>
   map_option topFiles (computeMetrics parseDate tz now []) = Some [] \<and>
   map_option topCommands (computeMetrics parseDate tz now []) = Some [] \<and>
   map_option topMcpTools (computeMetrics parseDate tz now []) = Some [] \<and>
   map_option avgEventsPerSession (computeMetrics parseDate tz now []) = Some 0 \<and>
   map_option totalLinesAdded (computeMetrics parseDate tz now []) = Some 0 \<and>
   map_option totalLinesRemoved (computeMetrics parseDate tz now []) = Some 0 \<and>
   map_option uniqueFilesCount (computeMetrics parseDate tz now []) = Some 0 \<and>
   map_option (map count_day \<circ> recentDays) (computeMetrics parseDate tz now []) =
     Some (replicate 7 0) \<and>
   map_option filteredSessionCount (computeMetrics parseDate tz now []) = Some 1 \<and>
   filteredSessionCountOf logs =
     max 1 (card {i \<in> trajectory_id ` set logs. i \<noteq> []})"
proof -
  have r: "map count_day (recentDaysOf tz now []) = replicate 7 0"
    by (simp add: recentDaysOf_def recentDayOf_def Let_def numeral_eq_Suc)
  have "{i \<in> trajectory_id ` set logs. i \<noteq> []} =
        set (filter (\<lambda>i. i \<noteq> []) (map trajectory_id logs))"
    by auto
  then have c: "length (uniqueSessionIds logs) = card {i \<in> trajectory_id ` set logs. i \<noteq> []}"
    by (simp only: uniqueSessionIds_def length_remdups_card_conv)
  have "filteredSessionCountOf logs = max 1 (length (uniqueSessionIds logs))"
    by (cases "uniqueSessionIds logs") (simp_all add: filteredSessionCountOf_def)
  with c show ?thesis
    by (simp add: computeMetrics_empty r)
qed

text \<open>
  On the empty list the session count of the snapshot is 1, not 0 (here on the host of the
  examples).
\<close>

theorem empty_metrics_counterexample:
  "map_option filteredSessionCount (computeMetrics parseExample utc 1704103200000 []) = Some 1"
  by (simp add: computeMetrics_empty)

text \<open>
  Claim C7, as the code has it, for log entries in which no file_write basename is a name
  that objects inherit (\<^verbatim>\<open>constructor\<close>, \<^verbatim>\<open>toString\<close>, \<^verbatim>\<open>__proto__\<close> and the like). The top
  modified files are the basenames of the file paths of the file_write entries with their
  numbers of occurrences, taken in the order of \<^verbatim>\<open>Object.entries\<close> (basenames that are array
  indices first, in ascending numeric order, then the others in first-seen order), sorted by
  count in descending order with a stable sort, and cut to at most 8 entries. When no
  basename is an array index, ties are broken by first-seen order.
\<close>

theorem topFiles_order:
  assumes plain: "\<forall>k\<in>set (fileNames logs). \<not> isInherited k"
  shows "(\<exists>tf. topFilesOf logs = Some tf \<and>
            tf = take 8 (sort_key (\<lambda>(k, c). - int c)
                   (sort_key (\<lambda>(k, n). intOfDigits 0 k)
                      (filter (\<lambda>(k, n). isArrayIndex k) (firstSeenCounts (fileNames logs))) @
                    filter (\<lambda>(k, n). \<not> isArrayIndex k) (firstSeenCounts (fileNames logs)))) \<and>
            length tf \<le> 8 \<and>
            sorted (map (\<lambda>(k, c). - int c) tf)) \<and>
         ((\<forall>k\<in>set (fileNames logs). \<not> isArrayIndex k) \<longrightarrow>
            topFilesOf logs =
              Some (take 8 (sort_key (\<lambda>(k, c). - int c) (firstSeenCounts (fileNames logs)))) \<and>
            (\<forall>c. filter (\<lambda>(k, c'). c' = c)
                   (sort_key (\<lambda>(k, c). - int c) (firstSeenCounts (fileNames logs))) =
                 filter (\<lambda>(k, c'). c' = c) (firstSeenCounts (fileNames logs))))"
proof
  from plain have proto: "filter (\<lambda>k. k \<noteq> ''__proto__'') (fileNames logs) = fileNames logs"
    by (auto simp add: isInherited_def filter_id_conv)
  from plain have "\<forall>k\<in>set (fileNames logs). k \<notin> set inheritedFunctions"
    by (simp add: isInherited_def)
  then have eq: "topFilesOf logs =
      Some (take 8 (sort_key (\<lambda>(k, c). - int c) (entries (firstSeenCounts (fileNames logs)))))"
    using topFilesOf_general [of logs] by (simp add: proto)
  then show "\<exists>tf. topFilesOf logs = Some tf \<and>
            tf = take 8 (sort_key (\<lambda>(k, c). - int c)
                   (sort_key (\<lambda>(k, n). intOfDigits 0 k)
                      (filter (\<lambda>(k, n). isArrayIndex k) (firstSeenCounts (fileNames logs))) @
                    filter (\<lambda>(k, n). \<not> isArrayIndex k) (firstSeenCounts (fileNames logs)))) \<and>
            length tf \<le> 8 \<and>
            sorted (map (\<lambda>(k, c). - int c) tf)"
    using sorted_take_desc [of 8 "entries (firstSeenCounts (fileNames logs))"]
    by (simp add: entries_def)
  show "(\<forall>k\<in>set (fileNames logs). \<not> isArrayIndex k) \<longrightarrow>
            topFilesOf logs =
              Some (take 8 (sort_key (\<lambda>(k, c). - int c) (firstSeenCounts (fileNames logs)))) \<and>
            (\<forall>c. filter (\<lambda>(k, c'). c' = c)
                   (sort_key (\<lambda>(k, c). - int c) (firstSeenCounts (fileNames logs))) =
                 filter (\<lambda>(k, c'). c' = c) (firstSeenCounts (fileNames logs)))"
    using plain topFilesOf_plain [of logs] ties_stable by blast
qed

text \<open>Three file writes touching \<open>a.py\<close> twice and \<open>b.py\<close> once.\<close>

theorem topFiles_order_witness:
  "list_all (\<lambda>k. \<not> isInherited k)
     (fileNames [fileWrite [] ''src/a.py'', fileWrite [] ''lib/b.py'', fileWrite [] ''a.py'']) \<and>
   topFilesOf [fileWrite [] ''src/a.py'', fileWrite [] ''lib/b.py'', fileWrite [] ''a.py''] =
     Some [(''a.py'', 2), (''b.py'', 1)]"
proof -
  let ?logs = "[fileWrite [] ''src/a.py'', fileWrite [] ''lib/b.py'', fileWrite [] ''a.py'']"
  have plain: "\<forall>k\<in>set (fileNames ?logs). \<not> isInherited k"
    by (simp add: fileNames_abc plain_names)
  have noIndex: "\<forall>k\<in>set (fileNames ?logs). \<not> isArrayIndex k"
    by (simp add: fileNames_abc plain_names)
  from topFiles_order [OF plain, THEN conjunct2, THEN mp, OF noIndex, THEN conjunct1]
  have "topFilesOf ?logs = Some [(''a.py'', 2), (''b.py'', 1)]"
    by (simp add: fileNames_abc firstSeenCounts_def firstSeen_def)
  with plain show ?thesis by (simp add: list_all_iff)
qed

text \<open>
  A file named \<open>b.py\<close> is written first and a file named \<open>7\<close> second, once each: the tie
  is not broken by first-seen order, \<open>7\<close> comes first.
\<close>

theorem topFiles_order_counterexample:
  "firstSeenCounts (fileNames [fileWrite [] ''src/b.py'', fileWrite [] ''build/7'']) =
     [(''b.py'', 1), (''7'', 1)] \<and>
   topFilesOf [fileWrite [] ''src/b.py'', fileWrite [] ''build/7''] =
     Some [(''7'', 1), (''b.py'', 1)]"
  by (simp add: fileNames_b7 firstSeenCounts_def firstSeen_def topFilesOf_def fileChanges_def
      countKeys_def inheritedFunctions_def topEntries_def entries_def plain_names)

text \<open>
  Claim C8, as the code has it. The first App variant computes the day-of-week histogram in
  the browser with 7 buckets in the numbering of \<^verbatim>\<open>getDay\<close>, 0 = Sunday to 6 = Saturday, and
  does not rotate it. The second App variant rotates the 7 buckets it receives from the
  server, numbered 0 = Monday to 6 = Sunday, to the numbering 0 = Sunday: the server's bucket
  \<open>d\<close> becomes bucket \<open>(d + 1) mod 7\<close>.
\<close>

theorem dayOfWeek_histogram:
  "(\<forall>m. computeMetrics parseDate tz now logs = Some m \<longrightarrow>
      length (dailyActivity m) = 7 \<and>
      (\<forall>j<7. dailyActivity m ! j = length (filter (counted getDay parseDate tz j) logs))) \<and>
   (length serverDaily = 7 \<longrightarrow>
      rotateDaily (Some serverDaily) = map Some (serverDaily ! 6 # take 6 serverDaily) \<and>
      (\<forall>d<7. rotateDaily (Some serverDaily) ! ((d + 1) mod 7) = Some (serverDaily ! d)))"
proof
  show "\<forall>m. computeMetrics parseDate tz now logs = Some m \<longrightarrow>
      length (dailyActivity m) = 7 \<and>
      (\<forall>j<7. dailyActivity m ! j = length (filter (counted getDay parseDate tz j) logs))"
  proof (intro allI impI)
    fix m assume m: "computeMetrics parseDate tz now logs = Some m"
    show "length (dailyActivity m) = 7 \<and>
      (\<forall>j<7. dailyActivity m ! j = length (filter (counted getDay parseDate tz j) logs))"
      unfolding computeMetrics_fields(1) [OF m] by (rule dailyHistogram)
  qed
  show "length serverDaily = 7 \<longrightarrow>
      rotateDaily (Some serverDaily) = map Some (serverDaily ! 6 # take 6 serverDaily) \<and>
      (\<forall>d<7. rotateDaily (Some serverDaily) ! ((d + 1) mod 7) = Some (serverDaily ! d))"
    using rotateDaily_7 by blast
qed

text \<open>
  One entry on Monday 1 January 2024 is counted in bucket 1 of the first variant's histogram;
  the rotation moves the server's last bucket to the front.
\<close>

theorem dayOfWeek_histogram_witness:
  "map_option (\<lambda>m. dailyActivity m ! 1)
     (computeMetrics parseExample utc 1704103200000 [fileWrite ''2024-01-01T10:00:00Z'' ''a.py'']) = Some 1 \<and>
   rotateDaily (Some [10, 20, 30, 40, 50, 60, 70]) =
     [Some 70, Some 10, Some 20, Some 30, Some 40, Some 50, Some 60]"
proof -
  let ?logs = "[fileWrite ''2024-01-01T10:00:00Z'' ''a.py'']"
  obtain m where m: "computeMetrics parseExample utc 1704103200000 ?logs = Some m"
    using computeMetrics_single by blast
  note h = dayOfWeek_histogram [of parseExample utc 1704103200000 ?logs "[10, 20, 30, 40, 50, 60, 70]"]
  have one: "(1::nat) < 7" by simp
  from h [THEN conjunct1, rule_format, OF m, THEN conjunct2, rule_format, OF one]
  have a: "dailyActivity m ! 1 = 1"
    by (simp add: counted_def fileWrite_def parseExample_def monday)
  have len: "length [10, 20, 30, 40, 50, 60, 70::nat] = 7" by simp
  from h [THEN conjunct2, THEN mp, OF len, THEN conjunct1]
  have b: "rotateDaily (Some [10, 20, 30, 40, 50, 60, 70]) =
     [Some 70, Some 10, Some 20, Some 30, Some 40, Some 50, Some 60]"
    by simp
  from a b m show ?thesis by simp
qed

text \<open>
  In the first variant's histogram the entry of Monday 1 January 2024 is in bucket 1, and
  bucket 0 is empty: the computed form is not numbered from Monday.
\<close>

theorem dayOfWeek_histogram_counterexample:
  "dayNamesList ! getDay utc 1704103200000 = ''Mon'' \<and>
   parseExample ''2024-01-01T10:00:00Z'' = Some 1704103200000 \<and>
   map_option dailyActivity
     (computeMetrics parseExample utc 1704103200000 [fileWrite ''2024-01-01T10:00:00Z'' ''a.py'']) =
     Some [0, 1, 0, 0, 0, 0, 0]"
proof -
  let ?logs = "[fileWrite ''2024-01-01T10:00:00Z'' ''a.py'']"
  obtain m where m: "computeMetrics parseExample utc 1704103200000 ?logs = Some m"
    using computeMetrics_single by blast
  from computeMetrics_fields(1) [OF m] have "dailyActivity m = [0, 1, 0, 0, 0, 0, 0]"
    by (simp add: histogram_monday)
  with m show ?thesis
    by (simp add: monday dayNamesList_def parseExample_def)
qed

text \<open>
  Claim C9, as the code has it. The snapshot is a function of the log entries and of the
  moment of the evaluation. Apart from the last-7-days counts and their maximum, every field
  of the snapshot is the same whenever the aggregation is evaluated.
\<close>

theorem metrics_apart_from_recent_days:
  "map_option (\<lambda>m. m\<lparr>recentDays := [], maxRecentDaily := 0\<rparr>) (computeMetrics parseDate tz now logs) =
   map_option (\<lambda>m. m\<lparr>recentDays := [], maxRecentDaily := 0\<rparr>) (computeMetrics parseDate tz now' logs)"
  by (simp add: computeMetrics_def split: option.splits)

text \<open>
  One entry of 1 January 2024: evaluated on that day, the snapshot counts it under today;
  evaluated ten days later it does not, and the two snapshots differ.
\<close>

theorem metrics_recent_days_counterexample:
  "map_option (\<lambda>m. count_day (recentDays m ! 6))
     (computeMetrics parseExample utc 1704103200000 [fileWrite ''2024-01-01T10:00:00Z'' ''a.py'']) = Some 1 \<and>
   map_option (\<lambda>m. count_day (recentDays m ! 6))
     (computeMetrics parseExample utc 1704967200000 [fileWrite ''2024-01-01T10:00:00Z'' ''a.py'']) = Some 0 \<and>
   computeMetrics parseExample utc 1704103200000 [fileWrite ''2024-01-01T10:00:00Z'' ''a.py''] \<noteq>
   computeMetrics parseExample utc 1704967200000 [fileWrite ''2024-01-01T10:00:00Z'' ''a.py'']"
proof -
  let ?logs = "[fileWrite ''2024-01-01T10:00:00Z'' ''a.py'']"
  obtain m1 where m1: "computeMetrics parseExample utc 1704103200000 ?logs = Some m1"
    using computeMetrics_single by blast
  obtain m2 where m2: "computeMetrics parseExample utc 1704967200000 ?logs = Some m2"
    using computeMetrics_single by blast
  have c1: "count_day (recentDays m1 ! 6) = 1"
    by (simp add: computeMetrics_fields(2) [OF m1] today_count isoDates startsWith_def fileWrite_def)
  have c2: "count_day (recentDays m2 ! 6) = 0"
    by (simp add: computeMetrics_fields(2) [OF m2] today_count isoDates startsWith_def fileWrite_def)
  from c1 c2 have "m1 \<noteq> m2" by auto
  with m1 m2 c1 c2 show ?thesis by simp
qed

end
